theory Spec2Isabelle
  imports Complex_Main
begin

section \<open>Errors\<close>

text \<open>Every failure of the Python code is an exception; the model returns it as a value.
  The constructor is the exception class, the argument identifies the message.\<close>

datatype dtype = float32 | float64 | complex64 | complex128

datatype message =
    Tuple_expected_at_most_1_argument nat
  | Not_iterable string
  | Unsupported_time_array_input string
  | Callable_not_an_array string
  | Callable_dtype dtype dtype
  | PWC_values_shape "nat list"
  | PWC_array_not_square "nat list"
  | Modulated_f_not_a_function string
  | Modulated_f_not_an_array string
  | Modulated_f_dtype dtype dtype dtype
  | Modulated_array_not_square "nat list"
  | Times_malformed
  | Incompatible_shapes "nat list" "nat list"
  | Cannot_reshape "nat list" "nat list"
  | Index_out_of_range
  | Too_few_dimensions "nat list"
  | Need_at_least_one_array
  | Arrays_must_have_same_shape
  | Unsupported_operand_types
  | No_attribute string
  | To_tensor_unsupported string
  | Maximum_recursion_depth_exceeded
  | Not_array_like string
  | Not_callable string
  | User_error string

datatype error = TypeError message | ValueError message | IndexError message
  | AttributeError message | RecursionError message | RuntimeError message

definition seq :: "error + 'a \<Rightarrow> ('a \<Rightarrow> error + 'b) \<Rightarrow> error + 'b" where
  "seq m k = (case m of Inl e \<Rightarrow> Inl e | Inr v \<Rightarrow> k v)"

fun mapM :: "('a \<Rightarrow> error + 'b) \<Rightarrow> 'a list \<Rightarrow> error + 'b list" where
  "mapM g [] = Inr []"
| "mapM g (x # xs) = seq (g x) (\<lambda>v. seq (mapM g xs) (\<lambda>vs. Inr (v # vs)))"

section \<open>N-dimensional arrays\<close>

text \<open>An array (\<open>jax.Array\<close>, \<open>torch.Tensor\<close>) is its shape and its elements in
  row-major order.  Elements are complex or real numbers; the arithmetic on them is exact.
  What is rounded is a value cast to a dtype: the entries of an array made by
  \<open>jnp.asarray\<close>, and a time compared with the entries of an array (see below).\<close>

datatype 'a ndarray = NDArray (shape: "nat list") (data: "'a list")

definition wf_nd :: "'a ndarray \<Rightarrow> bool" where
  "wf_nd a = (length (data a) = prod_list (shape a))"

fun indices :: "nat list \<Rightarrow> nat list list" where
  "indices [] = [[]]"
| "indices (d # ds) = concat (map (\<lambda>i. map ((#) i) (indices ds)) [0..<d])"

fun ravel :: "nat list \<Rightarrow> nat list \<Rightarrow> nat" where
  "ravel (d # ds) (i # js) = i * prod_list ds + ravel ds js"
| "ravel _ _ = 0"

definition valid :: "nat list \<Rightarrow> nat list \<Rightarrow> bool" where
  "valid s idx = list_all2 (<) idx s"

definition elem :: "'a ndarray \<Rightarrow> nat list \<Rightarrow> 'a" where
  "elem a idx = data a ! ravel (shape a) idx"

definition tabulate :: "nat list \<Rightarrow> (nat list \<Rightarrow> 'a) \<Rightarrow> 'a ndarray" where
  "tabulate s g = NDArray s (map g (indices s))"

definition ndim :: "'a ndarray \<Rightarrow> nat" where
  "ndim a = length (shape a)"

definition zeros :: "nat list \<Rightarrow> ('a::zero) ndarray" where
  "zeros s = NDArray s (replicate (prod_list s) 0)"

definition zeros_like :: "('a::zero) ndarray \<Rightarrow> 'a ndarray" where
  "zeros_like a = zeros (shape a)"

definition map_nd :: "('a \<Rightarrow> 'b) \<Rightarrow> 'a ndarray \<Rightarrow> 'b ndarray" where
  "map_nd g a = NDArray (shape a) (map g (data a))"

text \<open>\<open>a.reshape(*dims)\<close>: same elements, new shape of the same size.\<close>

definition reshape :: "'a ndarray \<Rightarrow> nat list \<Rightarrow> error + 'a ndarray" where
  "reshape a dims =
     (if prod_list dims = length (data a) then Inr (NDArray dims (data a))
      else Inl (TypeError (Cannot_reshape (shape a) dims)))"

text \<open>NumPy broadcasting: shapes are aligned at their last dimension; two dimensions
  are compatible when they are equal or one of them is 1.\<close>

definition broadcast_dim :: "nat \<Rightarrow> nat \<Rightarrow> nat option" where
  "broadcast_dim a b =
     (if a = b then Some a else if a = 1 then Some b else if b = 1 then Some a else None)"

definition pad_shape :: "nat \<Rightarrow> nat list \<Rightarrow> nat list" where
  "pad_shape k s = replicate (k - length s) 1 @ s"

definition broadcast_shapes :: "nat list \<Rightarrow> nat list \<Rightarrow> nat list option" where
  "broadcast_shapes s1 s2 =
     (let k = max (length s1) (length s2)
      in those (map2 broadcast_dim (pad_shape k s1) (pad_shape k s2)))"

definition bidx :: "nat list \<Rightarrow> nat list \<Rightarrow> nat list" where
  "bidx s idx = map2 (\<lambda>d i. if d = 1 then 0 else i) s (drop (length idx - length s) idx)"

definition broadcast_op ::
  "('a \<Rightarrow> 'b \<Rightarrow> 'c) \<Rightarrow> 'a ndarray \<Rightarrow> 'b ndarray \<Rightarrow> error + 'c ndarray" where
  "broadcast_op g a b =
     (case broadcast_shapes (shape a) (shape b) of
        None \<Rightarrow> Inl (ValueError (Incompatible_shapes (shape a) (shape b)))
      | Some s \<Rightarrow>
          Inr (tabulate s (\<lambda>idx. g (elem a (bidx (shape a) idx)) (elem b (bidx (shape b) idx)))))"

abbreviation add_nd :: "('a::plus) ndarray \<Rightarrow> 'a ndarray \<Rightarrow> error + 'a ndarray" where
  "add_nd \<equiv> broadcast_op (+)"

abbreviation sub_nd :: "('a::minus) ndarray \<Rightarrow> 'a ndarray \<Rightarrow> error + 'a ndarray" where
  "sub_nd \<equiv> broadcast_op (-)"

abbreviation mul_nd :: "('a::times) ndarray \<Rightarrow> 'a ndarray \<Rightarrow> error + 'a ndarray" where
  "mul_nd \<equiv> broadcast_op (*)"

definition neg_nd :: "('a::uminus) ndarray \<Rightarrow> 'a ndarray" where
  "neg_nd a = map_nd uminus a"

definition conj_nd :: "complex ndarray \<Rightarrow> complex ndarray" where
  "conj_nd a = map_nd cnj a"

text \<open>\<open>a[..., i]\<close>: the entry \<open>i\<close> of the last axis.  A negative index counts from the
  end; an index out of range is clamped, as JAX does on reads.\<close>

definition index_last :: "'a ndarray \<Rightarrow> int \<Rightarrow> error + 'a ndarray" where
  "index_last a i =
     (if shape a = [] then Inl (IndexError (Too_few_dimensions (shape a)))
      else let d = last (shape a) in
        if d = 0 then Inl (IndexError Index_out_of_range)
        else let j = nat (min (int d - 1) (max 0 (if i < 0 then i + int d else i)))
             in Inr (tabulate (butlast (shape a)) (\<lambda>idx. elem a (idx @ [j]))))"

text \<open>\<open>a[i]\<close>: the entry \<open>i\<close> of the first axis, for a non-negative \<open>i\<close>.\<close>

definition index_first :: "'a ndarray \<Rightarrow> nat \<Rightarrow> error + 'a ndarray" where
  "index_first a i =
     (case shape a of
        [] \<Rightarrow> Inl (IndexError (Too_few_dimensions (shape a)))
      | d # ds \<Rightarrow>
          if d = 0 then Inl (IndexError Index_out_of_range)
          else Inr (tabulate ds (\<lambda>idx. elem a (min i (d - 1) # idx))))"

text \<open>\<open>jnp.stack(xs, axis=-1)\<close>: all arrays have one shape; the new axis is the last.\<close>

definition stack_last :: "'a ndarray list \<Rightarrow> error + 'a ndarray" where
  "stack_last xs =
     (case xs of
        [] \<Rightarrow> Inl (ValueError Need_at_least_one_array)
      | y # ys \<Rightarrow>
          if \<forall>z \<in> set ys. shape z = shape y
          then Inr (tabulate (shape y @ [length xs]) (\<lambda>idx. elem (xs ! last idx) (butlast idx)))
          else Inl (ValueError Arrays_must_have_same_shape))"

text \<open>\<open>a.sum(-3)\<close>: the sum over the third axis from the end.\<close>

definition sum_axis_m3 :: "('a::comm_monoid_add) ndarray \<Rightarrow> error + 'a ndarray" where
  "sum_axis_m3 a =
     (let sh = shape a; l = length sh in
      if l < 3 then Inl (ValueError (Too_few_dimensions sh))
      else Inr (tabulate (take (l - 3) sh @ drop (l - 2) sh)
                  (\<lambda>idx. sum_list (map (\<lambda>i. elem a (take (l - 3) idx @ [i] @ drop (l - 3) idx))
                                      [0..<sh ! (l - 3)]))))"

text \<open>\<open>a.mT\<close>: the last two axes swapped.\<close>

definition mT_nd :: "'a ndarray \<Rightarrow> error + 'a ndarray" where
  "mT_nd a =
     (let sh = shape a; l = length sh in
      if l < 2 then Inl (ValueError (Too_few_dimensions sh))
      else Inr (tabulate (take (l - 2) sh @ [sh ! (l - 1), sh ! (l - 2)])
                  (\<lambda>idx. elem a (take (l - 2) idx @ [idx ! (l - 1), idx ! (l - 2)]))))"

text \<open>\<open>jnp.concatenate(xs)\<close> along the first axis.\<close>

definition concatenate2 :: "'a ndarray \<Rightarrow> 'a ndarray \<Rightarrow> error + 'a ndarray" where
  "concatenate2 a b =
     (case (shape a, shape b) of
        (d1 # s1, d2 # s2) \<Rightarrow>
          if s1 = s2 then Inr (NDArray ((d1 + d2) # s1) (data a @ data b))
          else Inl (TypeError (Incompatible_shapes (shape a) (shape b)))
      | _ \<Rightarrow> Inl (ValueError (Too_few_dimensions [])))"

text \<open>\<open>jnp.searchsorted(a, v, side='right')\<close>: binary search for the insertion point
  after the entries equal to \<open>v\<close>.\<close>

function bisect_right :: "real list \<Rightarrow> real \<Rightarrow> nat \<Rightarrow> nat \<Rightarrow> nat" where
  "bisect_right a v lo hi =
     (if lo < hi then
        (let mid = (lo + hi) div 2
         in if v < a ! mid then bisect_right a v lo mid else bisect_right a v (mid + 1) hi)
      else lo)"
  by pat_completeness auto
termination
  by (relation "measure (\<lambda>(a, v, lo, hi). hi - lo)") auto

declare bisect_right.simps [simp del]

definition searchsorted_right :: "real list \<Rightarrow> real \<Rightarrow> nat" where
  "searchsorted_right a v = bisect_right a v 0 (length a)"

text \<open>\<open>jnp.unique\<close> of a 1-D array: sort, then drop adjacent repetitions.\<close>

definition unique :: "real list \<Rightarrow> real list" where
  "unique xs = remdups_adj (sort xs)"

section \<open>Casts to a floating-point dtype\<close>

text \<open>A number cast to a floating-point dtype is rounded to the nearest number of the
  format, ties to the even significand.  \<open>float32\<close> has 24 significant bits and least
  normal exponent \<open>-126\<close>, \<open>float64\<close> has 53 and \<open>-1022\<close>; a complex dtype holds two
  numbers of the real dtype of its precision.  The overflow to infinity of a number beyond
  the largest of the format is not modelled.\<close>

fun float_exponent_from :: "nat \<Rightarrow> real \<Rightarrow> int \<Rightarrow> int" where
  "float_exponent_from 0 x e = e"
| "float_exponent_from (Suc k) x e =
     (if 2 \<le> x then float_exponent_from k (x / 2) (e + 1)
      else if x < 1 then float_exponent_from k (2 * x) (e - 1)
      else e)"

definition float_exponent :: "real \<Rightarrow> int" where
  "float_exponent x = float_exponent_from 2200 \<bar>x\<bar> 0"

definition pow2 :: "int \<Rightarrow> real" where
  "pow2 e = (if 0 \<le> e then 2 ^ nat e else 1 / 2 ^ nat (- e))"

definition round_half_even :: "real \<Rightarrow> int" where
  "round_half_even m =
     (let f = \<lfloor>m\<rfloor>; d = m - of_int f
      in if d < 1 / 2 then f else if 1 / 2 < d then f + 1 else if even f then f else f + 1)"

definition round_binary :: "nat \<Rightarrow> int \<Rightarrow> real \<Rightarrow> real" where
  "round_binary p emin x =
     (if x = 0 then 0
      else let e = max (float_exponent x) emin; ulp = pow2 (e - (int p - 1))
           in of_int (round_half_even (x / ulp)) * ulp)"

fun round_to :: "dtype \<Rightarrow> real \<Rightarrow> real" where
  "round_to float32 x = round_binary 24 (- 126) x"
| "round_to float64 x = round_binary 53 (- 1022) x"
| "round_to complex64 x = round_binary 24 (- 126) x"
| "round_to complex128 x = round_binary 53 (- 1022) x"

section \<open>Factors\<close>

text \<open>\<open>_PWCFactor\<close> holds \<open>times\<close> (a 1-D real array, here its dtype and the list of its
  entries), \<open>values\<close> of shape \<open>(..., nv)\<close> and \<open>nv\<close>. \<open>_ModulatedFactor\<close> holds a
  function of time \<open>f\<close> and the array \<open>f0\<close>.  A Python function may raise, so \<open>f\<close>
  returns an error or an array.\<close>

datatype Factor =
    PWCFactor dtype "real list" "complex ndarray" nat
  | ModulatedFactor "real \<Rightarrow> error + complex ndarray" "complex ndarray"

definition PWCFactor_init :: "dtype \<Rightarrow> real list \<Rightarrow> complex ndarray \<Rightarrow> error + Factor" where
  "PWCFactor_init dt ts values =
     (if shape values = [] then Inl (IndexError Index_out_of_range)
      else Inr (PWCFactor dt ts values (last (shape values))))"

fun Factor_shape :: "Factor \<Rightarrow> nat list" where
  "Factor_shape (PWCFactor dt ts values nv) = butlast (shape values)"
| "Factor_shape (ModulatedFactor f f0) = shape f0"

text \<open>The time \<open>t\<close> is a Python float.  In the comparisons with \<open>times[0]\<close> and
  \<open>times[-1]\<close> and in \<open>searchsorted\<close> JAX casts it to the dtype of \<open>times\<close>: all three
  see \<open>t\<close> rounded to that dtype.  The function of a modulated factor receives \<open>t\<close>
  itself.\<close>

fun Factor_call :: "Factor \<Rightarrow> real \<Rightarrow> error + complex ndarray" where
  "Factor_call (PWCFactor dt ts values nv) t =
     (if ts = [] then Inl (IndexError Index_out_of_range)
      else if round_to dt t < ts ! 0 \<or> round_to dt t \<ge> last ts
      then seq (index_last values 0) (\<lambda>v. Inr (zeros_like v))
      else (let idx = int (searchsorted_right ts (round_to dt t)) - 1
            in index_last values idx))"
| "Factor_call (ModulatedFactor f f0) t = seq (f t) (\<lambda>v. reshape v (shape f0))"

fun Factor_times :: "Factor \<Rightarrow> error + real list" where
  "Factor_times (PWCFactor dt ts values nv) = Inr ts"
| "Factor_times (ModulatedFactor f f0) = Inl (AttributeError (No_attribute ''times''))"

fun Factor_conj :: "Factor \<Rightarrow> Factor" where
  "Factor_conj (PWCFactor dt ts values nv) = PWCFactor dt ts (conj_nd values) nv"
| "Factor_conj (ModulatedFactor f f0) =
     ModulatedFactor (\<lambda>t. seq (f t) (\<lambda>v. Inr (conj_nd v))) (conj_nd f0)"

fun Factor_reshape :: "Factor \<Rightarrow> nat list \<Rightarrow> error + Factor" where
  "Factor_reshape (PWCFactor dt ts values nv) args =
     seq (reshape values (args @ [nv])) (\<lambda>v. PWCFactor_init dt ts v)"
| "Factor_reshape (ModulatedFactor f f0) args =
     seq (reshape f0 args) (\<lambda>v. Inr (ModulatedFactor f v))"

section \<open>Time arrays\<close>

text \<open>The classes \<open>ConstantTimeArray\<close>, \<open>CallableTimeArray\<close> and \<open>FactorTimeArray\<close>
  with its two subclasses.  An instance of a subclass of \<open>FactorTimeArray\<close> holds
  \<open>factors\<close>, \<open>arrays\<close>, \<open>n\<close> and \<open>static\<close>, and what its own class adds:
  \<open>PWCTimeArray\<close> has the merged \<open>times\<close>, \<open>ModulatedTimeArray\<close> nothing.\<close>

datatype FactorSubclass = PWCTimeArray "real list" | ModulatedTimeArray

datatype TimeArray =
    ConstantTimeArray "complex ndarray"
  | CallableTimeArray "real \<Rightarrow> error + complex ndarray" "complex ndarray"
  | FactorTimeArray FactorSubclass "Factor list" "complex ndarray" nat "complex ndarray"

text \<open>\<open>FactorTimeArray.__init__\<close> computes \<open>n\<close> and the default \<open>static\<close>.\<close>

definition FactorTimeArray_init ::
  "Factor list \<Rightarrow> complex ndarray \<Rightarrow> complex ndarray option
     \<Rightarrow> error + (nat \<times> complex ndarray)" where
  "FactorTimeArray_init factors arrays static =
     (if shape arrays = [] then Inl (IndexError Index_out_of_range)
      else let n = last (shape arrays) in
        (case static of
           None \<Rightarrow> seq (index_first arrays 0) (\<lambda>a0. Inr (n, zeros_like a0))
         | Some s \<Rightarrow> Inr (n, s)))"

definition concatenate_1d :: "real list list \<Rightarrow> error + real list" where
  "concatenate_1d xss =
     (if xss = [] then Inl (ValueError Need_at_least_one_array) else Inr (concat xss))"

definition PWCTimeArray_init ::
  "Factor list \<Rightarrow> complex ndarray \<Rightarrow> complex ndarray option \<Rightarrow> error + TimeArray" where
  "PWCTimeArray_init factors arrays static =
     seq (FactorTimeArray_init factors arrays static) (\<lambda>(n, st).
     seq (mapM Factor_times factors) (\<lambda>tss.
     seq (concatenate_1d tss) (\<lambda>merged.
     Inr (FactorTimeArray (PWCTimeArray (unique merged)) factors arrays n st))))"

definition ModulatedTimeArray_init ::
  "Factor list \<Rightarrow> complex ndarray \<Rightarrow> complex ndarray option \<Rightarrow> error + TimeArray" where
  "ModulatedTimeArray_init factors arrays static =
     seq (FactorTimeArray_init factors arrays static) (\<lambda>(n, st).
     Inr (FactorTimeArray ModulatedTimeArray factors arrays n st))"

text \<open>\<open>self.__class__(factors, arrays, static=static)\<close>.\<close>

fun self_class ::
  "FactorSubclass \<Rightarrow> Factor list \<Rightarrow> complex ndarray \<Rightarrow> complex ndarray option
     \<Rightarrow> error + TimeArray" where
  "self_class (PWCTimeArray ts) = PWCTimeArray_init"
| "self_class ModulatedTimeArray = ModulatedTimeArray_init"

text \<open>\<open>isinstance(y, self.__class__)\<close> for an instance \<open>y\<close> of a subclass.\<close>

fun isinstance_class :: "FactorSubclass \<Rightarrow> FactorSubclass \<Rightarrow> bool" where
  "isinstance_class (PWCTimeArray ts2) (PWCTimeArray ts1) = True"
| "isinstance_class ModulatedTimeArray ModulatedTimeArray = True"
| "isinstance_class _ _ = False"

text \<open>The builtin \<open>tuple\<close> takes at most one argument, an iterable.\<close>

datatype pyarg = Tuple_arg "nat list" | Int_arg nat

fun py_tuple :: "pyarg list \<Rightarrow> error + nat list" where
  "py_tuple [] = Inr []"
| "py_tuple [Tuple_arg s] = Inr s"
| "py_tuple [Int_arg k] = Inl (TypeError (Not_iterable ''int''))"
| "py_tuple args = Inl (TypeError (Tuple_expected_at_most_1_argument (length args)))"

fun TimeArray_shape :: "TimeArray \<Rightarrow> error + nat list" where
  "TimeArray_shape (ConstantTimeArray x) = Inr (shape x)"
| "TimeArray_shape (CallableTimeArray f f0) = Inr (shape f0)"
| "TimeArray_shape (FactorTimeArray cls factors arrays n static) =
     (if factors = [] then Inl (IndexError Index_out_of_range)
      else py_tuple [Tuple_arg (Factor_shape (factors ! 0)), Int_arg n, Int_arg n])"

definition TimeArray_ndim :: "TimeArray \<Rightarrow> error + nat" where
  "TimeArray_ndim a = seq (TimeArray_shape a) (\<lambda>s. Inr (length s))"

text \<open>The property \<open>mT\<close>.  \<open>FactorTimeArray\<close> and its subclasses do not define it,
  so they inherit the body of \<open>TimeArray.mT\<close>, a docstring only, which returns
  \<open>None\<close>: the result \<open>Inr None\<close>.\<close>

fun TimeArray_mT :: "TimeArray \<Rightarrow> error + TimeArray option" where
  "TimeArray_mT (ConstantTimeArray x) =
     seq (mT_nd x) (\<lambda>xT. Inr (Some (ConstantTimeArray xT)))"
| "TimeArray_mT (CallableTimeArray f f0) =
     seq (mT_nd f0) (\<lambda>f0T. Inr (Some (CallableTimeArray (\<lambda>t. seq (f t) mT_nd) f0T)))"
| "TimeArray_mT (FactorTimeArray cls factors arrays n static) = Inr None"

fun TimeArray_call :: "TimeArray \<Rightarrow> real \<Rightarrow> error + complex ndarray" where
  "TimeArray_call (ConstantTimeArray x) t = Inr x"
| "TimeArray_call (CallableTimeArray f f0) t = seq (f t) (\<lambda>v. reshape v (shape f0))"
| "TimeArray_call (FactorTimeArray cls factors arrays n static) t =
     seq (mapM (\<lambda>x. Factor_call x t) factors) (\<lambda>xs.
     seq (stack_last xs) (\<lambda>values.
     seq (reshape values (shape values @ [1, 1])) (\<lambda>values.
     seq (mul_nd values arrays) (\<lambda>weighted.
     seq (sum_axis_m3 weighted) (\<lambda>total. add_nd total static)))))"

fun TimeArray_reshape :: "TimeArray \<Rightarrow> nat list \<Rightarrow> error + TimeArray" where
  "TimeArray_reshape (ConstantTimeArray x) args =
     seq (reshape x args) (\<lambda>v. Inr (ConstantTimeArray v))"
| "TimeArray_reshape (CallableTimeArray f f0) args =
     seq (reshape f0 args) (\<lambda>v. Inr (CallableTimeArray f v))"
| "TimeArray_reshape (FactorTimeArray cls factors arrays n static) args =
     seq (mapM (\<lambda>x. Factor_reshape x (take (length args - 2) args)) factors) (\<lambda>fs.
     self_class cls fs arrays (Some static))"

fun TimeArray_conj :: "TimeArray \<Rightarrow> error + TimeArray" where
  "TimeArray_conj (ConstantTimeArray x) = Inr (ConstantTimeArray (conj_nd x))"
| "TimeArray_conj (CallableTimeArray f f0) =
     Inr (CallableTimeArray (\<lambda>t. seq (f t) (\<lambda>v. Inr (conj_nd v))) (conj_nd f0))"
| "TimeArray_conj (FactorTimeArray cls factors arrays n static) =
     self_class cls (map Factor_conj factors) (conj_nd arrays) (Some (conj_nd static))"

fun TimeArray_neg :: "TimeArray \<Rightarrow> error + TimeArray" where
  "TimeArray_neg (ConstantTimeArray x) = Inr (ConstantTimeArray (neg_nd x))"
| "TimeArray_neg (CallableTimeArray f f0) =
     Inr (CallableTimeArray (\<lambda>t. seq (f t) (\<lambda>v. Inr (neg_nd v))) (neg_nd f0))"
| "TimeArray_neg (FactorTimeArray cls factors arrays n static) =
     self_class cls factors (neg_nd arrays) (Some (neg_nd static))"

fun TimeArray_mul :: "TimeArray \<Rightarrow> complex ndarray \<Rightarrow> error + TimeArray" where
  "TimeArray_mul (ConstantTimeArray x) y =
     seq (mul_nd x y) (\<lambda>v. Inr (ConstantTimeArray v))"
| "TimeArray_mul (CallableTimeArray f f0) y =
     seq (mul_nd f0 y) (\<lambda>v0.
     Inr (CallableTimeArray (\<lambda>t. seq (f t) (\<lambda>v. mul_nd v y)) v0))"
| "TimeArray_mul (FactorTimeArray cls factors arrays n static) y =
     seq (mul_nd arrays y) (\<lambda>a. seq (mul_nd static y) (\<lambda>s.
     self_class cls factors a (Some s)))"

text \<open>The right operand of \<open>+\<close> and \<open>-\<close> is an array or a time array.  \<open>__add__\<close>
  returns \<open>NotImplemented\<close> for an operand it does not support: the result
  \<open>Inr None\<close>.\<close>

datatype operand = Array "complex ndarray" | TimeArr TimeArray

fun TimeArray_add :: "TimeArray \<Rightarrow> operand \<Rightarrow> error + TimeArray option" where
  "TimeArray_add (ConstantTimeArray x) (Array y) =
     seq (add_nd x y) (\<lambda>v. Inr (Some (ConstantTimeArray v)))"
| "TimeArray_add (ConstantTimeArray x) (TimeArr (ConstantTimeArray y)) =
     seq (add_nd x y) (\<lambda>v. Inr (Some (ConstantTimeArray v)))"
| "TimeArray_add (ConstantTimeArray x) (TimeArr _) = Inr None"
| "TimeArray_add (CallableTimeArray f f0) (Array y) =
     seq (add_nd f0 y) (\<lambda>v0.
     Inr (Some (CallableTimeArray (\<lambda>t. seq (f t) (\<lambda>v. add_nd v y)) v0)))"
| "TimeArray_add (CallableTimeArray f f0) (TimeArr (ConstantTimeArray y)) =
     seq (add_nd f0 y) (\<lambda>v0.
     Inr (Some (CallableTimeArray (\<lambda>t. seq (f t) (\<lambda>v. add_nd v y)) v0)))"
| "TimeArray_add (CallableTimeArray f f0) (TimeArr (CallableTimeArray g g0)) =
     seq (add_nd f0 g0) (\<lambda>v0.
     Inr (Some (CallableTimeArray
       (\<lambda>t. seq (f t) (\<lambda>v. seq (g t) (\<lambda>w. add_nd v w))) v0)))"
| "TimeArray_add (CallableTimeArray f f0) (TimeArr _) = Inr None"
| "TimeArray_add (FactorTimeArray cls factors arrays n static) (Array y) =
     seq (add_nd static y) (\<lambda>s.
     seq (self_class cls factors arrays (Some s)) (\<lambda>r. Inr (Some r)))"
| "TimeArray_add (FactorTimeArray cls factors arrays n static) (TimeArr (ConstantTimeArray y)) =
     seq (add_nd static y) (\<lambda>s.
     seq (self_class cls factors arrays (Some s)) (\<lambda>r. Inr (Some r)))"
| "TimeArray_add (FactorTimeArray cls factors arrays n static)
       (TimeArr (FactorTimeArray cls2 factors2 arrays2 n2 static2)) =
     (if isinstance_class cls2 cls then
        seq (concatenate2 arrays arrays2) (\<lambda>a.
        seq (add_nd static static2) (\<lambda>s.
        seq (self_class cls (factors @ factors2) a (Some s)) (\<lambda>r. Inr (Some r))))
      else Inr None)"
| "TimeArray_add (FactorTimeArray cls factors arrays n static) (TimeArr _) = Inr None"

text \<open>The operators \<open>x + y\<close> and \<open>-x\<close> of Python on arrays and time arrays: \<open>x + y\<close>
  calls \<open>x.__add__(y)\<close> and, when that returns \<open>NotImplemented\<close> and the operands
  have different types, \<open>y.__radd__(x)\<close>, which is \<open>y + x\<close> for a time array; when
  both have one type, a \<open>TypeError\<close>.  An array declines a time array as operand.
  \<open>TimeArray.__radd__\<close> evaluates \<open>y + x\<close> anew: when \<open>y.__add__(x)\<close> declines too,
  that addition calls \<open>x.__radd__(y)\<close>, which evaluates \<open>x + y\<close> again, and the
  recursion ends with Python's \<open>RecursionError\<close>.\<close>

fun same_type :: "TimeArray \<Rightarrow> TimeArray \<Rightarrow> bool" where
  "same_type (ConstantTimeArray _) (ConstantTimeArray _) = True"
| "same_type (CallableTimeArray _ _) (CallableTimeArray _ _) = True"
| "same_type (FactorTimeArray c1 _ _ _ _) (FactorTimeArray c2 _ _ _ _) = isinstance_class c1 c2"
| "same_type _ _ = False"

definition or_TypeError :: "error + TimeArray option \<Rightarrow> error + operand" where
  "or_TypeError r =
     seq r (\<lambda>v. case v of None \<Rightarrow> Inl (TypeError Unsupported_operand_types)
                    | Some a \<Rightarrow> Inr (TimeArr a))"

fun py_add :: "operand \<Rightarrow> operand \<Rightarrow> error + operand" where
  "py_add (Array x) (Array y) = seq (add_nd x y) (\<lambda>v. Inr (Array v))"
| "py_add (Array x) (TimeArr b) = or_TypeError (TimeArray_add b (Array x))"
| "py_add (TimeArr a) (Array y) = or_TypeError (TimeArray_add a (Array y))"
| "py_add (TimeArr a) (TimeArr b) =
     seq (TimeArray_add a (TimeArr b)) (\<lambda>v. case v of
        Some r \<Rightarrow> Inr (TimeArr r)
      | None \<Rightarrow>
          if same_type a b then Inl (TypeError Unsupported_operand_types)
          else seq (TimeArray_add b (TimeArr a)) (\<lambda>w. case w of
             Some r \<Rightarrow> Inr (TimeArr r)
           | None \<Rightarrow> Inl (RecursionError Maximum_recursion_depth_exceeded)))"

fun py_neg :: "operand \<Rightarrow> error + operand" where
  "py_neg (Array y) = Inr (Array (neg_nd y))"
| "py_neg (TimeArr a) = seq (TimeArray_neg a) (\<lambda>r. Inr (TimeArr r))"

definition TimeArray_radd :: "TimeArray \<Rightarrow> operand \<Rightarrow> error + operand" where
  "TimeArray_radd self y = py_add (TimeArr self) y"

definition TimeArray_sub :: "TimeArray \<Rightarrow> operand \<Rightarrow> error + operand" where
  "TimeArray_sub self y = seq (py_neg y) (\<lambda>ny. py_add (TimeArr self) ny)"

definition TimeArray_rsub :: "TimeArray \<Rightarrow> operand \<Rightarrow> error + operand" where
  "TimeArray_rsub self y = seq (TimeArray_neg self) (\<lambda>ns. py_add y (TimeArr ns))"

text \<open>The value of an operand at time \<open>t\<close>.\<close>

fun operand_call :: "operand \<Rightarrow> real \<Rightarrow> error + complex ndarray" where
  "operand_call (Array y) t = Inr y"
| "operand_call (TimeArr a) t = TimeArray_call a t"

section \<open>Construction of time arrays\<close>

text \<open>The values the constructors receive: a JAX array with its dtype; another array-like
  value (a list, a NumPy array, a number), given by the name of its type and the array that
  \<open>jnp.asarray\<close> makes of it; a function of time, which returns a value or raises; any
  other object, given by the name of its type.\<close>

datatype pyobj =
    JaxArray dtype "complex ndarray"
  | ArrayLike string "complex ndarray"
  | Function "real \<Rightarrow> error + pyobj"
  | Object string

text \<open>Modelled from the spec: \<open>obj_type_str\<close> and \<open>type_str\<close> of \<open>_utils\<close> are not among
  the sources; the messages built with them name the runtime type of the offending value.\<close>

fun obj_type_str :: "pyobj \<Rightarrow> string" where
  "obj_type_str (JaxArray d a) = ''Array''"
| "obj_type_str (ArrayLike name a) = name"
| "obj_type_str (Function g) = ''function''"
| "obj_type_str (Object name) = name"

text \<open>Modelled from the spec: \<open>dtype_complex_to_real\<close> of \<open>utils.array_types\<close> is not among
  the sources; it gives the real dtype of the same precision.\<close>

fun dtype_complex_to_real :: "dtype \<Rightarrow> dtype" where
  "dtype_complex_to_real complex64 = float32"
| "dtype_complex_to_real complex128 = float64"
| "dtype_complex_to_real d = d"

text \<open>The real dtype \<open>rdtype\<close> that both constructors compute from \<open>dtype\<close>.\<close>

definition rdtype_of :: "dtype \<Rightarrow> dtype" where
  "rdtype_of dt = (if dt = complex64 \<or> dt = complex128 then dtype_complex_to_real dt else dt)"

fun is_real_dtype :: "dtype \<Rightarrow> bool" where
  "is_real_dtype float32 = True"
| "is_real_dtype float64 = True"
| "is_real_dtype _ = False"

text \<open>\<open>jnp.asarray(x, dtype=dtype)\<close>: the array of an array-like value, cast to \<open>dtype\<close>;
  a cast to a real dtype keeps the real parts, and every number is rounded to the
  dtype.\<close>

definition cast_value :: "dtype \<Rightarrow> complex \<Rightarrow> complex" where
  "cast_value d z =
     (if is_real_dtype d then complex_of_real (round_to d (Re z))
      else Complex (round_to d (Re z)) (round_to d (Im z)))"

definition astype :: "dtype \<Rightarrow> complex ndarray \<Rightarrow> complex ndarray" where
  "astype d a = map_nd (cast_value d) a"

fun asarray :: "pyobj \<Rightarrow> dtype \<Rightarrow> error + complex ndarray" where
  "asarray (JaxArray d a) dt = Inr (astype dt a)"
| "asarray (ArrayLike name a) dt = Inr (astype dt a)"
| "asarray x dt = Inl (TypeError (Not_array_like (obj_type_str x)))"

text \<open>Modelled from the spec: \<open>check_time_array\<close> of \<open>_utils\<close> is not among the sources;
  the times must be 1-D, strictly increasing and at least two.\<close>

definition check_time_array :: "complex ndarray \<Rightarrow> error + unit" where
  "check_time_array ts =
     (if ndim ts = 1 \<and> sorted_wrt (<) (map Re (data ts)) \<and> 2 \<le> hd (shape ts)
      then Inr () else Inl (ValueError Times_malformed))"

text \<open>\<open>array[None, ...]\<close>: a new first axis of length 1.\<close>

definition expand_first :: "'a ndarray \<Rightarrow> 'a ndarray" where
  "expand_first a = NDArray (1 # shape a) (data a)"

text \<open>A function stored in a time array is called for its array: any other result has
  none of the array methods applied to it.\<close>

definition array_function :: "(real \<Rightarrow> error + pyobj) \<Rightarrow> real \<Rightarrow> error + complex ndarray" where
  "array_function g t =
     seq (g t) (\<lambda>v. case v of JaxArray d a \<Rightarrow> Inr a
                      | _ \<Rightarrow> Inl (AttributeError (No_attribute ''reshape'')))"

definition factory_constant :: "pyobj \<Rightarrow> dtype \<Rightarrow> error + TimeArray" where
  "factory_constant x dt = seq (asarray x dt) (\<lambda>a. Inr (ConstantTimeArray a))"

fun factory_callable :: "pyobj \<Rightarrow> dtype \<Rightarrow> error + TimeArray" where
  "factory_callable (Function g) dt =
     seq (g 0) (\<lambda>f0. case f0 of
        JaxArray d a \<Rightarrow>
          if d \<noteq> dt then Inl (TypeError (Callable_dtype dt d))
          else Inr (CallableTimeArray (array_function g) a)
      | _ \<Rightarrow> Inl (TypeError (Callable_not_an_array (obj_type_str f0))))"
| "factory_callable x dt = Inl (TypeError (Not_callable (obj_type_str x)))"

definition factory_pwc :: "pyobj \<Rightarrow> pyobj \<Rightarrow> pyobj \<Rightarrow> dtype \<Rightarrow> error + TimeArray" where
  "factory_pwc ts values array dt =
     (let rdtype = rdtype_of dt in
      seq (asarray ts rdtype) (\<lambda>ts.
      seq (check_time_array ts) (\<lambda>_.
      seq (asarray values dt) (\<lambda>values.
      if shape values = [] then Inl (IndexError Index_out_of_range)
      else if int (hd (shape values)) \<noteq> int (hd (shape ts)) - 1
      then Inl (TypeError (PWC_values_shape (shape values)))
      else
      seq (asarray array dt) (\<lambda>array.
      if ndim array \<noteq> 2 \<or> last (shape array) \<noteq> last (butlast (shape array))
      then Inl (TypeError (PWC_array_not_square (shape array)))
      else
      seq (PWCFactor_init rdtype (map Re (data ts)) values) (\<lambda>factor.
      PWCTimeArray_init [factor] (expand_first array) None))))))"

fun factory_modulated :: "pyobj \<Rightarrow> pyobj \<Rightarrow> dtype \<Rightarrow> error + TimeArray" where
  "factory_modulated (Function g) array dt =
     (let rdtype = rdtype_of dt in
      seq (g 0) (\<lambda>f0. case f0 of
        JaxArray d a \<Rightarrow>
          if d \<noteq> dt \<and> d \<noteq> rdtype then Inl (TypeError (Modulated_f_dtype dt rdtype d))
          else
          seq (asarray array dt) (\<lambda>array.
          if ndim array \<noteq> 2 \<or> last (shape array) \<noteq> last (butlast (shape array))
          then Inl (TypeError (Modulated_array_not_square (shape array)))
          else ModulatedTimeArray_init [ModulatedFactor (array_function g) a]
                 (expand_first array) None)
      | _ \<Rightarrow> Inl (TypeError (Modulated_f_not_an_array (obj_type_str f0)))))"
| "factory_modulated f array dt = Inl (TypeError (Modulated_f_not_a_function (obj_type_str f)))"

text \<open>\<open>totime\<close>.  Its argument is a 3-tuple, a 2-tuple or a single value.  \<open>get_cdtype\<close>
  of \<open>utils.array_types\<close> is not among the sources: the default complex dtype is a
  parameter.\<close>

datatype totime_arg = Tuple3 pyobj pyobj pyobj | Tuple2 pyobj pyobj | Single pyobj

fun totime :: "dtype \<Rightarrow> totime_arg \<Rightarrow> dtype option \<Rightarrow> error + TimeArray" where
  "totime cdtype (Tuple3 ts values array) dt =
     factory_pwc ts values array (case dt of None \<Rightarrow> cdtype | Some d \<Rightarrow> d)"
| "totime cdtype (Tuple2 g array) dt =
     factory_modulated g array (case dt of None \<Rightarrow> cdtype | Some d \<Rightarrow> d)"
| "totime cdtype (Single (JaxArray d a)) dt =
     factory_constant (JaxArray d a) (case dt of None \<Rightarrow> cdtype | Some d \<Rightarrow> d)"
| "totime cdtype (Single (ArrayLike name a)) dt =
     factory_constant (ArrayLike name a) (case dt of None \<Rightarrow> cdtype | Some d \<Rightarrow> d)"
| "totime cdtype (Single (Function g)) dt =
     factory_callable (Function g) (case dt of None \<Rightarrow> cdtype | Some d \<Rightarrow> d)"
| "totime cdtype (Single (Object name)) dt =
     Inl (TypeError (Unsupported_time_array_input name))"

section \<open>Conversion to tensors\<close>

text \<open>The values \<open>to_tensor\<close> receives: \<open>None\<close>, a Python list, a QuTiP quantum object,
  a NumPy array, a PyTorch tensor, or anything else (a number, or an object given by the
  name of its type).  A tensor is an array.  \<open>from_qutip\<close> of \<open>utils\<close> is not among the
  sources: it is a parameter.\<close>

datatype 'q tobj =
    PyNone
  | PyList "'q tobj list"
  | Qobj 'q
  | NumpyArray "complex ndarray"
  | TorchTensor "complex ndarray"
  | PyFloat real
  | PyObject string

text \<open>\<open>torch.tensor([])\<close>, of size \<open>(0)\<close>.\<close>

definition empty_tensor :: "complex ndarray" where
  "empty_tensor = NDArray [0] []"

text \<open>\<open>torch.stack(xs)\<close>: tensors of one shape, stacked along a new first axis.\<close>

definition torch_stack :: "complex ndarray list \<Rightarrow> error + complex ndarray" where
  "torch_stack xs =
     (case xs of
        [] \<Rightarrow> Inl (RuntimeError Need_at_least_one_array)
      | y # ys \<Rightarrow>
          if \<forall>z \<in> set ys. shape z = shape y
          then Inr (NDArray (length xs # shape y) (concat (map data xs)))
          else Inl (RuntimeError Arrays_must_have_same_shape))"

text \<open>\<open>to_tensor\<close>.  The test for a list comes first, so a list never reaches the test
  against \<open>TensorLike\<close>, although \<open>List\<close> is one of its members.\<close>

fun to_tensor :: "('q \<Rightarrow> error + complex ndarray) \<Rightarrow> 'q tobj \<Rightarrow> error + complex ndarray"
  and to_tensor_each ::
    "('q \<Rightarrow> error + complex ndarray) \<Rightarrow> 'q tobj list \<Rightarrow> error + complex ndarray list" where
  "to_tensor from_qutip PyNone = Inr empty_tensor"
| "to_tensor from_qutip (PyList xs) =
     (if length xs = 0 then Inr empty_tensor
      else seq (to_tensor_each from_qutip xs) torch_stack)"
| "to_tensor from_qutip (Qobj q) = from_qutip q"
| "to_tensor from_qutip (NumpyArray a) = Inr a"
| "to_tensor from_qutip (TorchTensor a) = Inr a"
| "to_tensor from_qutip (PyFloat r) = Inl (TypeError (To_tensor_unsupported ''float''))"
| "to_tensor from_qutip (PyObject name) = Inl (TypeError (To_tensor_unsupported name))"
| "to_tensor_each from_qutip [] = Inr []"
| "to_tensor_each from_qutip (y # ys) =
     seq (to_tensor from_qutip y) (\<lambda>v.
     seq (to_tensor_each from_qutip ys) (\<lambda>vs. Inr (v # vs)))"

section \<open>The master-equation solver\<close>

text \<open>The tensor operations that \<open>MESolver\<close> uses.  \<open>x.adjoint()\<close> is the conjugate of
  the transpose of the last two axes.  \<open>a @ b\<close> multiplies the matrices of the last two
  axes and broadcasts the axes before them; the operands of the solver have two
  dimensions or more, and the model raises for fewer, where \<open>torch\<close> has rules of its
  own.  \<open>a + b\<close> and \<open>a - b\<close> broadcast as arrays do; where the shapes do not, \<open>torch\<close>
  raises a \<open>RuntimeError\<close>.\<close>

definition torch_broadcast_op ::
  "('a \<Rightarrow> 'b \<Rightarrow> 'c) \<Rightarrow> 'a ndarray \<Rightarrow> 'b ndarray \<Rightarrow> error + 'c ndarray" where
  "torch_broadcast_op g a b =
     (case broadcast_op g a b of
        Inl e \<Rightarrow> Inl (RuntimeError (Incompatible_shapes (shape a) (shape b)))
      | Inr r \<Rightarrow> Inr r)"

abbreviation torch_add :: "complex ndarray \<Rightarrow> complex ndarray \<Rightarrow> error + complex ndarray" where
  "torch_add \<equiv> torch_broadcast_op (+)"

abbreviation torch_sub :: "complex ndarray \<Rightarrow> complex ndarray \<Rightarrow> error + complex ndarray" where
  "torch_sub \<equiv> torch_broadcast_op (-)"

definition adjoint_nd :: "complex ndarray \<Rightarrow> error + complex ndarray" where
  "adjoint_nd a = seq (mT_nd a) (\<lambda>aT. Inr (conj_nd aT))"

definition matmul :: "complex ndarray \<Rightarrow> complex ndarray \<Rightarrow> error + complex ndarray" where
  "matmul a b =
     (let sa = shape a; sb = shape b; la = length sa; lb = length sb in
      if la < 2 \<or> lb < 2 then Inl (RuntimeError (Too_few_dimensions (if la < 2 then sa else sb)))
      else if sa ! (la - 1) \<noteq> sb ! (lb - 2) then Inl (RuntimeError (Incompatible_shapes sa sb))
      else case broadcast_shapes (take (la - 2) sa) (take (lb - 2) sb) of
        None \<Rightarrow> Inl (RuntimeError (Incompatible_shapes sa sb))
      | Some bs \<Rightarrow>
          Inr (tabulate (bs @ [sa ! (la - 2), sb ! (lb - 1)])
            (\<lambda>idx. let j = take (length bs) idx; r = idx ! length bs; c = idx ! (length bs + 1)
                  in sum_list (map (\<lambda>k. elem a (bidx (take (la - 2) sa) j @ [r, k]) *
                                        elem b (bidx (take (lb - 2) sb) j @ [k, c]))
                                [0..<sa ! (la - 1)]))))"

text \<open>\<open>x.squeeze(0)\<close> drops a first axis of length 1; \<open>x.sum(dim=0)\<close> sums over the first
  axis; \<open>z * x\<close> for a number \<open>z\<close>.\<close>

definition squeeze0 :: "'a ndarray \<Rightarrow> 'a ndarray" where
  "squeeze0 a = (case shape a of d # s \<Rightarrow> if d = 1 then NDArray s (data a) else a | [] \<Rightarrow> a)"

definition sum_dim0 :: "complex ndarray \<Rightarrow> complex ndarray" where
  "sum_dim0 a =
     (case shape a of
        [] \<Rightarrow> a
      | d # s \<Rightarrow> tabulate s (\<lambda>idx. sum_list (map (\<lambda>k. elem a (k # idx)) [0..<d])))"

definition scale :: "complex \<Rightarrow> complex ndarray \<Rightarrow> complex ndarray" where
  "scale z a = map_nd ((*) z) a"

text \<open>The solver holds the Hamiltonian \<open>H\<close>, a function of time set by the base class
  \<open>Solver\<close> (not among the sources), and the jump operators with a new first axis,
  of shape \<open>(1, len(jump_ops), n, n)\<close>.\<close>

record MESolver =
  H :: "real \<Rightarrow> error + complex ndarray"
  jump_ops :: "complex ndarray"

definition MESolver_init ::
  "(real \<Rightarrow> error + complex ndarray) \<Rightarrow> complex ndarray \<Rightarrow> MESolver" where
  "MESolver_init h ops = \<lparr>H = h, jump_ops = expand_first ops\<rparr>"

definition sum_no_jump :: "MESolver \<Rightarrow> error + complex ndarray" where
  "sum_no_jump self =
     seq (adjoint_nd (jump_ops self)) (\<lambda>Ld.
     seq (matmul Ld (jump_ops self)) (\<lambda>LdL. Inr (sum_dim0 (squeeze0 LdL))))"

definition H_nh :: "MESolver \<Rightarrow> real \<Rightarrow> error + complex ndarray" where
  "H_nh self t =
     seq (H self t) (\<lambda>Ht.
     seq (sum_no_jump self) (\<lambda>snj. torch_sub Ht (scale (Complex 0 (1/2)) snj)))"

text \<open>Modelled from the spec: \<open>kraus_map\<close> of \<open>utils.solver_utils\<close> is not among the
  sources; it is the sum over the jump operators \<open>L\<close> of \<open>L \<rho> L\<^sup>\<dagger>\<close>, the zero array of
  the shape of \<open>\<rho>\<close> when there is none.\<close>

definition operator_list :: "complex ndarray \<Rightarrow> error + complex ndarray list" where
  "operator_list ops =
     (case shape ops of
        [one, m, n, p] \<Rightarrow>
          Inr (map (\<lambda>k. tabulate [n, p] (\<lambda>idx. elem ops (0 # k # idx))) [0..<m])
      | _ \<Rightarrow> Inl (RuntimeError (Too_few_dimensions (shape ops))))"

fun kraus_terms :: "complex ndarray \<Rightarrow> complex ndarray list \<Rightarrow> error + complex ndarray" where
  "kraus_terms rho [] = Inr (zeros_like rho)"
| "kraus_terms rho (L # Ls) =
     seq (matmul L rho) (\<lambda>Lrho.
     seq (adjoint_nd L) (\<lambda>Ld.
     seq (matmul Lrho Ld) (\<lambda>term.
     seq (kraus_terms rho Ls) (\<lambda>rest. torch_add term rest))))"

definition kraus_map :: "complex ndarray \<Rightarrow> complex ndarray \<Rightarrow> error + complex ndarray" where
  "kraus_map rho ops = seq (operator_list ops) (kraus_terms rho)"

definition lindbladian :: "MESolver \<Rightarrow> real \<Rightarrow> complex ndarray \<Rightarrow> error + complex ndarray" where
  "lindbladian self t rho =
     seq (H_nh self t) (\<lambda>Hnh.
     seq (matmul Hnh rho) (\<lambda>H_nh_rho.
     seq (kraus_map rho (jump_ops self)) (\<lambda>L_rho_Ldag.
     seq (adjoint_nd H_nh_rho) (\<lambda>H_nh_rho_adj.
     seq (torch_sub H_nh_rho H_nh_rho_adj) (\<lambda>commutator.
     torch_add (scale (Complex 0 (- 1)) commutator) L_rho_Ldag)))))"

section \<open>Auxiliary functions\<close>

text \<open>Broadcasting seen from the last dimension, on reversed shapes and indices; used
  only in proofs.\<close>

fun bsr :: "nat list \<Rightarrow> nat list \<Rightarrow> nat list option" where
  "bsr [] ys = Some ys"
| "bsr xs [] = Some xs"
| "bsr (x # xs) (y # ys) =
     (case broadcast_dim x y of None \<Rightarrow> None
      | Some d \<Rightarrow> map_option ((#) d) (bsr xs ys))"

fun bir :: "nat list \<Rightarrow> nat list \<Rightarrow> nat list" where
  "bir (d # ds) (i # js) = (if d = 1 then 0 else i) # bir ds js"
| "bir _ _ = []"

section \<open>Properties of arrays\<close>

lemma length_indices: "length (indices s) = prod_list s"
proof (induction s)
  case Nil show ?case by simp
next
  case (Cons d ds)
  have "length (concat (map (\<lambda>i. map ((#) i) (indices ds)) [0..<d])) = d * prod_list ds"
    using Cons by (induction d) (simp_all add: length_concat)
  then show ?case by simp
qed

lemma concat_nth_block:
  "\<forall>xs \<in> set xss. length xs = n \<Longrightarrow> i < length xss \<Longrightarrow> j < n \<Longrightarrow>
   concat xss ! (i * n + j) = xss ! i ! j"
proof (induction xss arbitrary: i)
  case Nil then show ?case by simp
next
  case (Cons xs xss)
  show ?case
  proof (cases i)
    case 0 with Cons.prems show ?thesis by (simp add: nth_append)
  next
    case (Suc k)
    with Cons show ?thesis by (simp add: nth_append)
  qed
qed

lemma ravel_less: "valid s idx \<Longrightarrow> ravel s idx < prod_list s"
  unfolding valid_def
proof (induction idx s rule: list_all2_induct)
  case Nil show ?case by simp
next
  case (Cons i js d ds)
  have "i * prod_list ds + ravel ds js < Suc i * prod_list ds" using Cons by simp
  also have "\<dots> \<le> d * prod_list ds" using Cons.hyps(1) by (intro mult_le_mono1) simp
  finally show ?case by simp
qed

lemma indices_ravel: "valid s idx \<Longrightarrow> indices s ! ravel s idx = idx"
  unfolding valid_def
proof (induction idx s rule: list_all2_induct)
  case Nil show ?case by simp
next
  case (Cons i js d ds)
  have v: "valid ds js" using Cons by (simp add: valid_def)
  let ?xss = "map (\<lambda>i. map ((#) i) (indices ds)) [0..<d]"
  have "concat ?xss ! (i * prod_list ds + ravel ds js) = ?xss ! i ! ravel ds js"
    by (rule concat_nth_block) (use Cons.hyps(1) ravel_less[OF v] in \<open>auto simp: length_indices\<close>)
  also have "\<dots> = i # js"
    using Cons ravel_less[OF v] by (simp add: length_indices)
  finally show ?case by simp
qed

lemma set_indices: "set (indices s) = {idx. valid s idx}"
proof (induction s)
  case Nil show ?case by (auto simp: valid_def)
next
  case (Cons d ds)
  show ?case
  proof (intro set_eqI iffI)
    fix idx assume "idx \<in> set (indices (d # ds))"
    then show "idx \<in> {idx. valid (d # ds) idx}" using Cons by (auto simp: valid_def)
  next
    fix idx assume "idx \<in> {idx. valid (d # ds) idx}"
    then obtain i js where "idx = i # js" "i < d" "valid ds js"
      by (auto simp: valid_def list_all2_Cons2)
    then show "idx \<in> set (indices (d # ds))" using Cons by auto
  qed
qed

lemma elem_tabulate [simp]: "valid s idx \<Longrightarrow> elem (tabulate s f) idx = f idx"
  by (simp add: elem_def tabulate_def ravel_less length_indices indices_ravel)

lemma shape_tabulate [simp]: "shape (tabulate s f) = s"
  by (simp add: tabulate_def)

lemma wf_tabulate [simp]: "wf_nd (tabulate s f)"
  by (simp add: tabulate_def wf_nd_def length_indices)

lemma tabulate_cong: "(\<And>idx. valid s idx \<Longrightarrow> f idx = g idx) \<Longrightarrow> tabulate s f = tabulate s g"
  by (simp add: tabulate_def set_indices)

lemma indices_nth_Cons:
  assumes "k < d * prod_list ds"
  shows "indices (d # ds) ! k = (k div prod_list ds) # (indices ds ! (k mod prod_list ds))"
proof -
  let ?P = "prod_list ds"
  let ?xss = "map (\<lambda>i. map ((#) i) (indices ds)) [0..<d]"
  have P: "0 < ?P" using assms by (cases "?P = 0") simp_all
  have i: "k div ?P < d" using assms P by (simp add: less_mult_imp_div_less)
  have j: "k mod ?P < ?P" using P by simp
  have "concat ?xss ! (k div ?P * ?P + k mod ?P) = ?xss ! (k div ?P) ! (k mod ?P)"
    by (rule concat_nth_block) (use i j in \<open>auto simp: length_indices\<close>)
  then show ?thesis using i j by (simp add: length_indices)
qed

lemma ravel_indices: "k < prod_list s \<Longrightarrow> ravel s (indices s ! k) = k"
proof (induction s arbitrary: k)
  case Nil then show ?case by simp
next
  case (Cons d ds)
  have P: "0 < prod_list ds" using Cons.prems by (cases "prod_list ds = 0") simp_all
  have "k mod prod_list ds < prod_list ds" using P by simp
  then have "ravel ds (indices ds ! (k mod prod_list ds)) = k mod prod_list ds" by (rule Cons.IH)
  moreover have "indices (d # ds) ! k = (k div prod_list ds) # (indices ds ! (k mod prod_list ds))"
    using Cons.prems by (intro indices_nth_Cons) simp
  ultimately show ?case by (simp del: indices.simps)
qed

lemma tabulate_elem: "wf_nd a \<Longrightarrow> tabulate (shape a) (elem a) = a"
  by (cases a) (auto simp: tabulate_def elem_def wf_nd_def length_indices ravel_indices intro!: nth_equalityI)

lemma ndarray_eqI:
  "wf_nd a \<Longrightarrow> wf_nd b \<Longrightarrow> shape a = shape b \<Longrightarrow> (\<And>idx. valid (shape a) idx \<Longrightarrow> elem a idx = elem b idx) \<Longrightarrow> a = b"
  by (metis tabulate_elem tabulate_cong)

lemma seq_Inr [simp]: "seq (Inr v) k = k v"
  by (simp add: seq_def)

lemma seq_Inl [simp]: "seq (Inl e) k = Inl e"
  by (simp add: seq_def)

lemma seq_eq_Inr: "seq m k = Inr r \<longleftrightarrow> (\<exists>v. m = Inr v \<and> k v = Inr r)"
  by (cases m) simp_all

lemma mapM_length: "mapM g xs = Inr vs \<Longrightarrow> length vs = length xs"
  by (induction xs arbitrary: vs) (auto simp: seq_eq_Inr)

lemma mapM_nth: "mapM g xs = Inr vs \<Longrightarrow> i < length xs \<Longrightarrow> g (xs ! i) = Inr (vs ! i)"
proof (induction xs arbitrary: vs i)
  case Nil then show ?case by simp
next
  case (Cons x xs)
  then show ?case by (cases i) (auto simp: seq_eq_Inr)
qed

lemma valid_Nil [simp]: "valid [] idx \<longleftrightarrow> idx = []"
  by (simp add: valid_def)

lemma valid_Cons [simp]: "valid (d # s) (i # idx) \<longleftrightarrow> i < d \<and> valid s idx"
  by (simp add: valid_def)

lemma valid_length: "valid s idx \<Longrightarrow> length idx = length s"
  by (simp add: valid_def list_all2_lengthD)

lemma valid_append:
  "length idx = length s \<Longrightarrow> valid (s @ s') (idx @ idx') \<longleftrightarrow> valid s idx \<and> valid s' idx'"
  by (simp add: valid_def list_all2_append)

lemma valid_split:
  assumes "valid (s @ s') j"
  shows "valid s (take (length s) j) \<and> valid s' (drop (length s) j)"
proof -
  have "length j = length s + length s'" using valid_length[OF assms] by simp
  then have "valid (s @ s') (take (length s) j @ drop (length s) j) \<longleftrightarrow>
        valid s (take (length s) j) \<and> valid s' (drop (length s) j)"
    by (intro valid_append) simp
  with assms show ?thesis by simp
qed

lemma ravel_append:
  "length idx = length s \<Longrightarrow>
   ravel (s @ s') (idx @ idx') = ravel s idx * prod_list s' + ravel s' idx'"
proof (induction s arbitrary: idx)
  case Nil then show ?case by simp
next
  case (Cons d ds)
  then show ?case by (cases idx) (simp_all add: algebra_simps)
qed

section \<open>The piecewise-constant factor\<close>

lemma bisect_right_spec:
  assumes "sorted a" "lo \<le> hi" "hi \<le> length a"
    "\<forall>i<lo. a ! i \<le> v" "\<forall>i. hi \<le> i \<and> i < length a \<longrightarrow> v < a ! i"
  shows "lo \<le> bisect_right a v lo hi \<and> bisect_right a v lo hi \<le> hi \<and>
         (\<forall>i<bisect_right a v lo hi. a ! i \<le> v) \<and>
         (\<forall>i. bisect_right a v lo hi \<le> i \<and> i < length a \<longrightarrow> v < a ! i)"
  using assms
proof (induction a v lo hi rule: bisect_right.induct)
  case (1 a v lo hi)
  show ?case
  proof (cases "lo < hi")
    case False
    then have "bisect_right a v lo hi = lo" by (subst bisect_right.simps) simp
    with "1.prems" False show ?thesis by simp
  next
    case True
    define mid where "mid = (lo + hi) div 2"
    have mid: "lo \<le> mid" "mid < hi" using True by (simp_all add: mid_def)
    show ?thesis
    proof (cases "v < a ! mid")
      case left: True
      have up: "\<forall>i. mid \<le> i \<and> i < length a \<longrightarrow> v < a ! i"
      proof (intro allI impI)
        fix i assume "mid \<le> i \<and> i < length a"
        then have "a ! mid \<le> a ! i" using \<open>sorted a\<close> by (simp add: sorted_nth_mono)
        with left show "v < a ! i" by simp
      qed
      have "lo \<le> bisect_right a v lo mid \<and> bisect_right a v lo mid \<le> mid \<and>
         (\<forall>i<bisect_right a v lo mid. a ! i \<le> v) \<and>
         (\<forall>i. bisect_right a v lo mid \<le> i \<and> i < length a \<longrightarrow> v < a ! i)"
        using "1.IH"(1)[OF True mid_def left \<open>sorted a\<close>] mid "1.prems" up by simp
      moreover have "bisect_right a v lo hi = bisect_right a v lo mid"
        using True left by (subst bisect_right.simps) (simp add: mid_def Let_def)
      ultimately show ?thesis using mid by simp
    next
      case right: False
      have low: "\<forall>i<mid + 1. a ! i \<le> v"
      proof (intro allI impI)
        fix i assume "i < mid + 1"
        then have "a ! i \<le> a ! mid" using \<open>sorted a\<close> mid "1.prems"(3) by (simp add: sorted_nth_mono)
        with right show "a ! i \<le> v" by simp
      qed
      have "mid + 1 \<le> bisect_right a v (mid + 1) hi \<and> bisect_right a v (mid + 1) hi \<le> hi \<and>
         (\<forall>i<bisect_right a v (mid + 1) hi. a ! i \<le> v) \<and>
         (\<forall>i. bisect_right a v (mid + 1) hi \<le> i \<and> i < length a \<longrightarrow> v < a ! i)"
        using "1.IH"(2)[OF True mid_def right \<open>sorted a\<close>] mid "1.prems" low by simp
      moreover have "bisect_right a v lo hi = bisect_right a v (mid + 1) hi"
        using True right by (subst bisect_right.simps) (simp add: mid_def Let_def)
      ultimately show ?thesis using mid by simp
    qed
  qed
qed

lemma searchsorted_right_spec:
  assumes "sorted a"
  shows "searchsorted_right a v \<le> length a \<and>
         (\<forall>i<searchsorted_right a v. a ! i \<le> v) \<and>
         (\<forall>i. searchsorted_right a v \<le> i \<and> i < length a \<longrightarrow> v < a ! i)"
  using bisect_right_spec[of a 0 "length a" v] assms
  by (simp add: searchsorted_right_def)

lemma strict_sorted_sorted: "sorted_wrt (<) (ts::real list) \<Longrightarrow> sorted ts"
  by (simp add: sorted_wrt_mono_rel[of ts "(<)" "(\<le>)"])

lemma interval_unique:
  assumes "sorted_wrt (<) (ts::real list)" "k < length ts - 1" "ts ! k \<le> t" "t < ts ! (k + 1)"
    "j < length ts - 1" "ts ! j \<le> t" "t < ts ! (j + 1)"
  shows "j = k"
proof (rule ccontr)
  assume "j \<noteq> k"
  then consider "j + 1 \<le> k" | "k + 1 \<le> j" by linarith
  then show False
  proof cases
    case 1
    then have "ts ! (j + 1) \<le> ts ! k"
      using strict_sorted_sorted[OF assms(1)] assms(2) by (intro sorted_nth_mono) simp_all
    with assms show False by simp
  next
    case 2
    then have "ts ! (k + 1) \<le> ts ! j"
      using strict_sorted_sorted[OF assms(1)] assms(5) by (intro sorted_nth_mono) simp_all
    with assms show False by simp
  qed
qed

lemma searchsorted_right_interval:
  assumes "sorted_wrt (<) (ts::real list)" "length ts = nv + 1" "ts ! 0 \<le> t" "t < last ts"
    "k < nv" "ts ! k \<le> t" "t < ts ! (k + 1)"
  shows "searchsorted_right ts t = k + 1"
proof -
  define r where "r = searchsorted_right ts t"
  have sp1: "\<forall>i<r. ts ! i \<le> t" and sp2: "\<forall>i. r \<le> i \<and> i < length ts \<longrightarrow> t < ts ! i"
    using searchsorted_right_spec[OF strict_sorted_sorted[OF assms(1)], of t]
    unfolding r_def by blast+
  have a: "\<not> r \<le> k"
  proof
    assume "r \<le> k"
    moreover have "k < length ts" using assms(2,5) by simp
    ultimately have "t < ts ! k" using sp2 by blast
    with assms(6) show False by simp
  qed
  have b: "\<not> k + 1 < r"
  proof
    assume "k + 1 < r"
    then have "ts ! (k + 1) \<le> t" using sp1 by blast
    with assms(7) show False by simp
  qed
  from a b have "r = k + 1" by simp
  then show ?thesis by (simp add: r_def)
qed

lemma interval_exists:
  assumes "sorted_wrt (<) (ts::real list)" "length ts = nv + 1" "ts ! 0 \<le> t" "t < last ts"
  shows "\<exists>k. k < nv \<and> ts ! k \<le> t \<and> t < ts ! (k + 1)"
proof -
  let ?r = "searchsorted_right ts t"
  note sp = searchsorted_right_spec[OF strict_sorted_sorted[OF assms(1)], of t]
  have ne: "ts \<noteq> []" using assms(2) by auto
  have r0: "0 < ?r"
  proof (rule ccontr)
    assume "\<not> 0 < ?r"
    then have "t < ts ! 0" using sp assms(2) by simp
    with assms(3) show False by simp
  qed
  have rn: "?r \<le> nv"
  proof (rule ccontr)
    assume "\<not> ?r \<le> nv"
    then have "nv < ?r" by simp
    then have "ts ! nv \<le> t" using sp by blast
    moreover have "last ts = ts ! nv" using ne assms(2) by (simp add: last_conv_nth)
    ultimately show False using assms(4) by simp
  qed
  have "?r - 1 < nv \<and> ts ! (?r - 1) \<le> t \<and> t < ts ! (?r - 1 + 1)"
    using r0 rn sp assms(2) by simp
  then show ?thesis by blast
qed

lemma zeros_tabulate: "zeros s = tabulate s (\<lambda>_. 0)"
  by (simp add: zeros_def tabulate_def length_indices map_replicate_const)

lemma index_last_in_range:
  assumes "shape a = s @ [d]" "k < d"
  shows "index_last a (int k) = Inr (tabulate s (\<lambda>idx. elem a (idx @ [k])))"
proof -
  have "nat (min (int d - 1) (max 0 (int k))) = k" using assms(2) by simp
  then show ?thesis using assms by (simp add: index_last_def Let_def)
qed

text \<open>The call of a PWC factor in terms of the time as the comparisons see it.\<close>

lemma PWCFactor_call_rounded:
  assumes "sorted_wrt (<) ts" and "length ts = nv + 1" and "0 < nv"
    and "shape values = s @ [nv]" and r: "r = round_to dt t"
  shows "(r < ts ! 0 \<or> last ts \<le> r \<longrightarrow>
            Factor_call (PWCFactor dt ts values nv) t = Inr (zeros s)) \<and>
         (ts ! 0 \<le> r \<and> r < last ts \<longrightarrow>
            (\<exists>!k. k < nv \<and> ts ! k \<le> r \<and> r < ts ! (k + 1)) \<and>
            (\<forall>k. k < nv \<and> ts ! k \<le> r \<and> r < ts ! (k + 1) \<longrightarrow>
               searchsorted_right ts r = k + 1 \<and>
               Factor_call (PWCFactor dt ts values nv) t =
                 Inr (tabulate s (\<lambda>idx. elem values (idx @ [k])))))"
proof (intro conjI impI allI)
  have ne: "ts \<noteq> []" using assms(2) by auto
  {
    assume out: "r < ts ! 0 \<or> last ts \<le> r"
    have "index_last values 0 = Inr (tabulate s (\<lambda>idx. elem values (idx @ [0])))"
      using index_last_in_range[OF assms(4) assms(3)] by simp
    then show "Factor_call (PWCFactor dt ts values nv) t = Inr (zeros s)"
      using out ne by (auto simp: seq_def zeros_like_def r[symmetric])
  }
  {
    assume inr: "ts ! 0 \<le> r \<and> r < last ts"
    from interval_exists[OF assms(1,2)] inr
    obtain k where k: "k < nv" "ts ! k \<le> r" "r < ts ! (k + 1)" by blast
    show "\<exists>!k. k < nv \<and> ts ! k \<le> r \<and> r < ts ! (k + 1)"
    proof (rule ex1I[of _ k])
      show "k < nv \<and> ts ! k \<le> r \<and> r < ts ! (k + 1)" using k by simp
    next
      fix j assume "j < nv \<and> ts ! j \<le> r \<and> r < ts ! (j + 1)"
      then show "j = k" using interval_unique[OF assms(1), of k r j] k assms(2) by simp
    qed
  }
  {
    fix k
    assume inr: "ts ! 0 \<le> r \<and> r < last ts" and k: "k < nv \<and> ts ! k \<le> r \<and> r < ts ! (k + 1)"
    show ss: "searchsorted_right ts r = k + 1"
      using searchsorted_right_interval[OF assms(1,2)] inr k by blast
    have "index_last values (int k) = Inr (tabulate s (\<lambda>idx. elem values (idx @ [k])))"
      using index_last_in_range[OF assms(4)] k by blast
    then show "Factor_call (PWCFactor dt ts values nv) t =
                 Inr (tabulate s (\<lambda>idx. elem values (idx @ [k])))"
      using inr ne ss by (auto simp: Let_def r[symmetric])
  }
qed

text \<open>Claim C2 states the intervals for the time \<open>t\<close> itself.  The code compares \<open>t\<close>
  after its cast to the dtype of the times, \<open>float32\<close> by default.  With times
  \<open>[0, 1, 2]\<close> and values \<open>[3, 5]\<close>, the time \<open>1 - 2\<^sup>-\<^sup>3\<^sup>0\<close> lies in \<open>[0, 1)\<close> and rounds
  to \<open>1\<close>: the call returns \<open>5\<close>, the value of \<open>[1, 2)\<close>, not \<open>3\<close>; the time \<open>2 - 2\<^sup>-\<^sup>3\<^sup>0\<close>
  lies in \<open>[1, 2)\<close> and rounds to \<open>2\<close>: the call returns zero, not \<open>5\<close>.\<close>

theorem PWCFactor_call_exact_time_counterexample:
  "[0, 1, 2] ! 0 \<le> (1 - 1 / 2 ^ 30 :: real) \<and> (1 - 1 / 2 ^ 30 :: real) < [0, 1, 2] ! 1 \<and>
   Factor_call (PWCFactor float32 [0, 1, 2] (NDArray [2] [3, 5]) 2) (1 - 1 / 2 ^ 30) =
     Inr (NDArray [] [5]) \<and>
   elem (NDArray [2] [3, 5 :: complex]) [0] = 3 \<and>
   [0, 1, 2] ! 1 \<le> (2 - 1 / 2 ^ 30 :: real) \<and> (2 - 1 / 2 ^ 30 :: real) < last [0, 1, 2] \<and>
   Factor_call (PWCFactor float32 [0, 1, 2] (NDArray [2] [3, 5]) 2) (2 - 1 / 2 ^ 30) =
     Inr (NDArray [] [0]) \<and>
   elem (NDArray [2] [3, 5 :: complex]) [1] = 5"
  by code_simp

text \<open>Claim C2, amended.  Let \<open>r\<close> be the time \<open>t\<close> rounded to the dtype of the times.
  A PWC factor with strictly increasing breakpoints \<open>ts\<close> (\<open>nv + 1\<close> of them) and values of
  shape \<open>(..., nv)\<close> returns the zero array of the batch shape when \<open>r < ts[0]\<close> or
  \<open>r \<ge> ts[-1]\<close>, and otherwise \<open>values[..., k]\<close> for the one \<open>k\<close> with
  \<open>ts[k] \<le> r < ts[k+1]\<close>, which is the result of the binary search for \<open>r\<close> minus one.
  A time that the dtype holds exactly is its own \<open>r\<close>.\<close>

theorem PWCFactor_call_half_open:
  assumes "sorted_wrt (<) ts" and "length ts = nv + 1" and "0 < nv"
    and "shape values = s @ [nv]"
  shows "(round_to dt t < ts ! 0 \<or> last ts \<le> round_to dt t \<longrightarrow>
            Factor_call (PWCFactor dt ts values nv) t = Inr (zeros s)) \<and>
         (ts ! 0 \<le> round_to dt t \<and> round_to dt t < last ts \<longrightarrow>
            (\<exists>!k. k < nv \<and> ts ! k \<le> round_to dt t \<and> round_to dt t < ts ! (k + 1)) \<and>
            (\<forall>k. k < nv \<and> ts ! k \<le> round_to dt t \<and> round_to dt t < ts ! (k + 1) \<longrightarrow>
               searchsorted_right ts (round_to dt t) = k + 1 \<and>
               Factor_call (PWCFactor dt ts values nv) t =
                 Inr (tabulate s (\<lambda>idx. elem values (idx @ [k])))))"
  by (rule PWCFactor_call_rounded[OF assms refl])

theorem PWCFactor_call_half_open_witness:
  "Factor_call (PWCFactor float32 [0, 1, 2] (NDArray [2] [3, 5]) 2) 2 = Inr (NDArray [] [0]) \<and>
   Factor_call (PWCFactor float32 [0, 1, 2] (NDArray [2] [3, 5]) 2) (1 / 2) = Inr (NDArray [] [3]) \<and>
   Factor_call (PWCFactor float32 [0, 1, 2] (NDArray [2] [3, 5]) 2) (1 - 1 / 2 ^ 30) =
     Inr (NDArray [] [5])"
proof -
  have h1: "sorted_wrt (<) [0, 1, 2 :: real]" by simp
  have h2: "length [0, 1, 2 :: real] = 2 + 1" by simp
  have h3: "0 < (2::nat)" by simp
  have h4: "shape (NDArray [2] [3, 5 :: complex]) = [] @ [2]" by simp
  note th = PWCFactor_call_half_open[OF h1 h2 h3 h4, of float32]
  have r2: "round_to float32 2 = 2" by code_simp
  have rh: "round_to float32 (1 / 2) = 1 / 2" by code_simp
  have r1: "round_to float32 (1 - 1 / 2 ^ 30) = 1" by code_simp
  have o: "round_to float32 2 < [0, 1, 2] ! 0 \<or> last [0, 1, 2] \<le> round_to float32 2"
    unfolding r2 by simp
  have a: "Factor_call (PWCFactor float32 [0, 1, 2] (NDArray [2] [3, 5]) 2) 2 = Inr (zeros [])"
    using th[of 2, THEN conjunct1, rule_format, OF o] .
  have i0: "[0, 1, 2] ! 0 \<le> round_to float32 (1 / 2) \<and> round_to float32 (1 / 2) < last [0, 1, 2]"
    unfolding rh by simp
  have k0: "(0::nat) < 2 \<and> [0, 1, 2] ! 0 \<le> round_to float32 (1 / 2) \<and>
            round_to float32 (1 / 2) < [0, 1, 2] ! (0 + 1)"
    unfolding rh by simp
  have b0: "Factor_call (PWCFactor float32 [0, 1, 2] (NDArray [2] [3, 5]) 2) (1 / 2) =
            Inr (tabulate [] (\<lambda>idx. elem (NDArray [2] [3, 5]) (idx @ [0])))"
    using th[of "1 / 2", THEN conjunct2, rule_format, OF i0, THEN conjunct2, rule_format, OF k0]
    by (rule conjunct2)
  have i: "[0, 1, 2] ! 0 \<le> round_to float32 (1 - 1 / 2 ^ 30) \<and>
           round_to float32 (1 - 1 / 2 ^ 30) < last [0, 1, 2]"
    unfolding r1 by simp
  have k: "(1::nat) < 2 \<and> [0, 1, 2] ! 1 \<le> round_to float32 (1 - 1 / 2 ^ 30) \<and>
           round_to float32 (1 - 1 / 2 ^ 30) < [0, 1, 2] ! (1 + 1)"
    unfolding r1 by simp
  have b: "Factor_call (PWCFactor float32 [0, 1, 2] (NDArray [2] [3, 5]) 2) (1 - 1 / 2 ^ 30) =
            Inr (tabulate [] (\<lambda>idx. elem (NDArray [2] [3, 5]) (idx @ [1])))"
    using th[of "1 - 1 / 2 ^ 30", THEN conjunct2, rule_format, OF i, THEN conjunct2,
        rule_format, OF k]
    by (rule conjunct2)
  show ?thesis unfolding a b0 b by (simp add: zeros_def tabulate_def elem_def)
qed

section \<open>Shape and transpose of a composite time array\<close>

text \<open>Claim C3 says that \<open>shape\<close> of a composite time array returns \<open>(..., n, n)\<close> and
  \<open>ndim\<close> its length.  The code calls \<open>tuple\<close> with three arguments, so on every composite
  time array \<open>shape\<close> raises, and \<open>ndim\<close>, which reads \<open>shape\<close>, raises the same
  exception.\<close>

theorem FactorTimeArray_shape_raises:
  "\<exists>e. TimeArray_shape (FactorTimeArray cls factors arrays n static) = Inl e \<and>
       TimeArray_ndim (FactorTimeArray cls factors arrays n static) = Inl e"
  by (simp add: TimeArray_ndim_def)

text \<open>The transpose of a constant time array is the constant time array of the
  transposed array.\<close>

lemma ConstantTimeArray_mT_call:
  assumes "mT_nd x = Inr xT"
  shows "\<exists>a. TimeArray_mT (ConstantTimeArray x) = Inr (Some a) \<and> TimeArray_call a t = Inr xT"
  using assms by simp

text \<open>Claim C4 says that \<open>mT\<close> of every variant is a time array of the same variant.
  \<open>FactorTimeArray\<close> and its subclasses do not define \<open>mT\<close>: on every composite time
  array the property returns \<open>None\<close>.\<close>

theorem FactorTimeArray_mT_is_None:
  "TimeArray_mT (FactorTimeArray cls factors arrays n static) = Inr None"
  by simp

section \<open>Calling a composite time array\<close>

lemma those_map_Some [simp]: "those (map Some xs) = Some xs"
  by (induction xs) simp_all

lemma those_append:
  "those xs = Some a \<Longrightarrow> those ys = Some b \<Longrightarrow> those (xs @ ys) = Some (a @ b)"
  by (induction xs arbitrary: a) (auto split: option.splits)

lemma map2_broadcast_dim_ones:
  "map2 broadcast_dim b (replicate (length b) (Suc 0)) = map Some b"
  by (induction b) (simp_all add: broadcast_dim_def)

lemma broadcast_shapes_prefix:
  assumes "length s1 = length s2" "those (map2 broadcast_dim s1 s2) = Some s3"
  shows "broadcast_shapes (b @ s1) s2 = Some (b @ s3)"
proof -
  have "map2 broadcast_dim (b @ s1) (replicate (length b) 1 @ s2) =
        map2 broadcast_dim b (replicate (length b) 1) @ map2 broadcast_dim s1 s2"
    by simp
  then have "those (map2 broadcast_dim (b @ s1) (replicate (length b) 1 @ s2)) = Some (b @ s3)"
    using assms(2) by (simp add: map2_broadcast_dim_ones those_append)
  then show ?thesis
    using assms(1) by (simp add: broadcast_shapes_def pad_shape_def Let_def)
qed

lemma bidx_suffix:
  "length j' = length s' \<Longrightarrow> bidx s' (j @ j') = bidx s' j'"
  by (simp add: bidx_def)

lemma bidx_append:
  "length j = length b \<Longrightarrow> length j' = length s' \<Longrightarrow>
   bidx (b @ s') (j @ j') = bidx b j @ bidx s' j'"
  by (simp add: bidx_def)

lemma bidx_valid: "valid s j \<Longrightarrow> bidx s j = j"
  unfolding valid_def
proof (induction j s rule: list_all2_induct)
  case Nil show ?case by (simp add: bidx_def)
next
  case (Cons i js d ds)
  then show ?case by (auto simp: bidx_def dest: list_all2_lengthD)
qed

lemma stack_last_same:
  assumes "xs \<noteq> []" "\<forall>v \<in> set xs. shape v = b"
  shows "stack_last xs =
         Inr (tabulate (b @ [length xs]) (\<lambda>idx. elem (xs ! last idx) (butlast idx)))"
  using assms by (cases xs) (auto simp: stack_last_def)

lemma elem_reshape_ones:
  assumes "valid s j"
  shows "elem (NDArray (s @ [1, 1]) (map g (indices s))) (j @ [0, 0]) = g j"
proof -
  have "ravel (s @ [1, 1]) (j @ [0, 0]) = ravel s j"
    using valid_length[OF assms] by (simp add: ravel_append)
  then show ?thesis
    using assms by (simp add: elem_def ravel_less length_indices indices_ravel)
qed

lemma reshape_tabulate_ones:
  "reshape (tabulate s g) (s @ [1, 1]) = Inr (NDArray (s @ [1, 1]) (map g (indices s)))"
  by (simp add: reshape_def tabulate_def length_indices)

lemma sum_axis_m3_tabulate:
  "sum_axis_m3 (tabulate (b @ [k, n, m]) g) =
   Inr (tabulate (b @ [n, m]) (\<lambda>idx. \<Sum>i<k. g (take (length b) idx @ [i] @ drop (length b) idx)))"
proof -
  have "tabulate (b @ [n, m])
          (\<lambda>idx. sum_list (map (\<lambda>i. elem (tabulate (b @ [k, n, m]) g)
                     (take (length b) idx @ [i] @ drop (length b) idx)) [0..<k])) =
        tabulate (b @ [n, m]) (\<lambda>idx. \<Sum>i<k. g (take (length b) idx @ [i] @ drop (length b) idx))"
  proof (rule tabulate_cong)
    fix idx assume v: "valid (b @ [n, m]) idx"
    have sp: "valid b (take (length b) idx)" "valid [n, m] (drop (length b) idx)"
      using valid_split[OF v] by simp_all
    have "\<And>i. i < k \<Longrightarrow> valid (b @ [k, n, m]) (take (length b) idx @ [i] @ drop (length b) idx)"
    proof -
      fix i assume "i < k"
      have "valid (b @ [k, n, m]) (take (length b) idx @ (i # drop (length b) idx))"
        using sp \<open>i < k\<close> valid_length[OF sp(1)] by (subst valid_append) simp_all
      then show "valid (b @ [k, n, m]) (take (length b) idx @ [i] @ drop (length b) idx)" by simp
    qed
    then have "map (\<lambda>i. elem (tabulate (b @ [k, n, m]) g)
                     (take (length b) idx @ [i] @ drop (length b) idx)) [0..<k] =
               map (\<lambda>i. g (take (length b) idx @ [i] @ drop (length b) idx)) [0..<k]"
      by (intro map_cong) simp_all
    then show "sum_list (map (\<lambda>i. elem (tabulate (b @ [k, n, m]) g)
                     (take (length b) idx @ [i] @ drop (length b) idx)) [0..<k]) =
          (\<Sum>i<k. g (take (length b) idx @ [i] @ drop (length b) idx))"
      by (simp add: interv_sum_list_conv_sum_set_nat atLeast0LessThan)
  qed
  then show ?thesis
    by (simp add: sum_axis_m3_def Let_def)
qed

lemma broadcast_dim_one_right [simp]: "broadcast_dim (Suc 0) n = Some n"
  by (simp add: broadcast_dim_def)

lemma broadcast_dim_same [simp]: "broadcast_dim n n = Some n"
  by (simp add: broadcast_dim_def)

text \<open>The weighted sum of the base matrices, before the static part is added.\<close>

lemma weighted_sum_eq:
  assumes vs: "vs \<noteq> []" "\<forall>v \<in> set vs. shape v = b"
    and ar: "shape arrays = [length vs, n, n]"
  shows "seq (stack_last vs) (\<lambda>values.
         seq (reshape values (shape values @ [1, 1])) (\<lambda>values.
         seq (mul_nd values arrays) (\<lambda>weighted. sum_axis_m3 weighted))) =
         Inr (tabulate (b @ [n, n]) (\<lambda>j. \<Sum>i<length vs.
                elem (vs ! i) (take (length b) j) * elem arrays (i # drop (length b) j)))"
proof -
  let ?k = "length vs"
  let ?g = "\<lambda>idx. elem (vs ! last idx) (butlast idx)"
  let ?V = "NDArray (b @ [?k, 1, 1]) (map ?g (indices (b @ [?k])))"
  let ?h = "\<lambda>idx. elem ?V (bidx (shape ?V) idx) * elem arrays (bidx (shape arrays) idx)"
  have bs: "broadcast_shapes (b @ [?k, 1, 1]) [?k, n, n] = Some (b @ [?k, n, n])"
    by (rule broadcast_shapes_prefix) simp_all
  have mul: "mul_nd ?V arrays = Inr (tabulate (b @ [?k, n, n]) ?h)"
    using bs ar by (simp add: broadcast_op_def)
  have step: "seq (stack_last vs) (\<lambda>values.
         seq (reshape values (shape values @ [1, 1])) (\<lambda>values.
         seq (mul_nd values arrays) (\<lambda>weighted. sum_axis_m3 weighted))) =
        Inr (tabulate (b @ [n, n])
          (\<lambda>idx. \<Sum>i<?k. ?h (take (length b) idx @ [i] @ drop (length b) idx)))"
    using reshape_tabulate_ones[of "b @ [?k]" ?g] mul
    by (simp add: stack_last_same[OF vs] sum_axis_m3_tabulate)
  have "tabulate (b @ [n, n])
          (\<lambda>idx. \<Sum>i<?k. ?h (take (length b) idx @ [i] @ drop (length b) idx)) =
        tabulate (b @ [n, n]) (\<lambda>j. \<Sum>i<?k.
                elem (vs ! i) (take (length b) j) * elem arrays (i # drop (length b) j))"
  proof (rule tabulate_cong, rule sum.cong, rule refl)
    fix idx i assume v: "valid (b @ [n, n]) idx" and "i \<in> {..<?k}"
    then have i: "i < ?k" by simp
    let ?j = "take (length b) idx" and ?rc = "drop (length b) idx"
    have sp: "valid b ?j" "valid [n, n] ?rc" using valid_split[OF v] by simp_all
    have lj: "length ?j = length b" using valid_length[OF sp(1)] .
    have lrc: "length ?rc = 2" using valid_length[OF sp(2)] by simp
    have vi: "valid [?k, n, n] (i # ?rc)" using sp(2) i by simp
    have vji: "valid (b @ [?k]) (?j @ [i])" using sp(1) i lj by (subst valid_append) simp_all
    have "bidx (shape arrays) (?j @ i # ?rc) = i # ?rc"
      using bidx_suffix[of "i # ?rc" "[?k, n, n]" ?j] lrc bidx_valid[OF vi] ar by simp
    moreover have "bidx (b @ [?k, 1, 1]) (?j @ i # ?rc) = (?j @ [i]) @ [0, 0]"
    proof -
      obtain r c where rc: "?rc = [r, c]"
        using lrc by (metis One_nat_def Suc_1 length_0_conv length_Suc_conv)
      have "bidx (b @ [?k, 1, 1]) (?j @ [i, r, c]) = bidx b ?j @ bidx [?k, 1, 1] [i, r, c]"
        using lj by (intro bidx_append) simp_all
      also have "bidx [?k, 1, 1] [i, r, c] = [i, 0, 0]" using i by (auto simp: bidx_def)
      finally show ?thesis using rc bidx_valid[OF sp(1)] by simp
    qed
    moreover have "elem ?V ((?j @ [i]) @ [0, 0]) = ?g (?j @ [i])"
      using elem_reshape_ones[OF vji, of ?g] by simp
    ultimately show "?h (?j @ [i] @ ?rc) = elem (vs ! i) ?j * elem arrays (i # ?rc)"
      by simp
  qed
  with step show ?thesis by simp
qed

lemma mapM_eq_InrI:
  "length vs = length xs \<Longrightarrow> \<forall>i<length xs. g (xs ! i) = Inr (vs ! i) \<Longrightarrow> mapM g xs = Inr vs"
proof (induction xs arbitrary: vs)
  case Nil then show ?case by simp
next
  case (Cons x xs)
  then obtain v vs' where vs: "vs = v # vs'" by (cases vs) auto
  have "g x = Inr v" using Cons.prems(2) vs by auto
  moreover have "mapM g xs = Inr vs'"
  proof (rule Cons.IH)
    show "length vs' = length xs" using Cons.prems(1) vs by simp
    show "\<forall>i<length xs. g (xs ! i) = Inr (vs' ! i)"
      using Cons.prems(2) vs by auto
  qed
  ultimately show ?case using vs by simp
qed

lemma add_nd_tabulate_matrix:
  assumes "shape static = [n, n]"
  shows "add_nd (tabulate (b @ [n, n]) g) static =
         Inr (tabulate (b @ [n, n]) (\<lambda>j. g j + elem static (drop (length b) j)))"
proof -
  have bs: "broadcast_shapes (b @ [n, n]) [n, n] = Some (b @ [n, n])"
    by (rule broadcast_shapes_prefix) simp_all
  have "tabulate (b @ [n, n])
          (\<lambda>idx. elem (tabulate (b @ [n, n]) g) (bidx (b @ [n, n]) idx) + elem static (bidx [n, n] idx)) =
        tabulate (b @ [n, n]) (\<lambda>j. g j + elem static (drop (length b) j))"
  proof (rule tabulate_cong)
    fix idx assume v: "valid (b @ [n, n]) idx"
    have sp: "valid b (take (length b) idx)" "valid [n, n] (drop (length b) idx)"
      using valid_split[OF v] by simp_all
    have "bidx [n, n] (take (length b) idx @ drop (length b) idx) = bidx [n, n] (drop (length b) idx)"
      using valid_length[OF sp(2)] by (intro bidx_suffix) simp
    then have "bidx [n, n] idx = drop (length b) idx"
      using bidx_valid[OF sp(2)] by simp
    then show "elem (tabulate (b @ [n, n]) g) (bidx (b @ [n, n]) idx) + elem static (bidx [n, n] idx) =
               g idx + elem static (drop (length b) idx)"
      using v by (simp add: bidx_valid)
  qed
  then show ?thesis using bs assms by (simp add: broadcast_op_def)
qed

text \<open>The sum of two PWC time arrays made by \<open>totime\<close>, one with values of shape
  \<open>(2)\<close> and one with values of shape \<open>(2, 2)\<close>, has factors of batch shapes \<open>()\<close> and
  \<open>(2)\<close>; its call raises.\<close>

lemma mixed_batch_shapes_from_totime:
  "seq (totime complex64 (Tuple3 (ArrayLike ''list'' (NDArray [3] [0, 1, 2]))
          (ArrayLike ''list'' (NDArray [2] [3, 5])) (ArrayLike ''list'' (NDArray [1, 1] [1]))) None)
     (\<lambda>A.
   seq (totime complex64 (Tuple3 (ArrayLike ''list'' (NDArray [3] [0, 1, 2]))
          (ArrayLike ''list'' (NDArray [2, 2] [1, 2, 3, 4])) (ArrayLike ''list'' (NDArray [1, 1] [1])))
          None) (\<lambda>B.
   seq (py_add (TimeArr A) (TimeArr B)) (\<lambda>C.
   operand_call C (1 / 2)))) = Inl (ValueError Arrays_must_have_same_shape)"
  by code_simp

text \<open>Claim C1 states the weighted sum for every composite time array.  The call stacks
  the factor values, and \<open>jnp.stack\<close> takes arrays of one shape only: on the composite
  that the sum above is, both factors return at \<open>t = 1/2\<close>, with values of shapes \<open>()\<close> and
  \<open>(2)\<close>, and the call raises.\<close>

theorem FactorTimeArray_call_mixed_shapes_counterexample:
  "Factor_call (PWCFactor float32 [0, 1, 2] (NDArray [2] [3, 5]) 2) (1 / 2) =
     Inr (NDArray [] [3]) \<and>
   Factor_call (PWCFactor float32 [0, 1, 2] (NDArray [2, 2] [1, 2, 3, 4]) 2) (1 / 2) =
     Inr (NDArray [2] [1, 3]) \<and>
   TimeArray_call (FactorTimeArray (PWCTimeArray [0, 1, 2])
      [PWCFactor float32 [0, 1, 2] (NDArray [2] [3, 5]) 2,
       PWCFactor float32 [0, 1, 2] (NDArray [2, 2] [1, 2, 3, 4]) 2]
      (NDArray [2, 1, 1] [1, 1]) 1 (NDArray [1, 1] [0])) (1 / 2) =
     Inl (ValueError Arrays_must_have_same_shape)"
  by code_simp

text \<open>Claim C1, amended.  For a composite time array whose factors evaluate at \<open>t\<close> to
  arrays \<open>vs\<close> of one batch shape \<open>b\<close>, with \<open>nf\<close> stacked \<open>n \<times> n\<close> base matrices and an
  \<open>n \<times> n\<close> static part, the call at \<open>t\<close> returns an array of shape \<open>(b, n, n)\<close> whose
  entry at batch index \<open>j\<close>, row \<open>r\<close> and column \<open>c\<close> is the sum over the factors of
  factor value times base-matrix entry, plus the entry of the static part.\<close>

theorem FactorTimeArray_call_weighted_sum:
  assumes "factors \<noteq> []" and "length vs = length factors"
    and "\<forall>i<length factors. Factor_call (factors ! i) t = Inr (vs ! i) \<and> shape (vs ! i) = b"
    and "shape arrays = [length factors, n, n]" and "shape static = [n, n]"
  shows "\<exists>R. TimeArray_call (FactorTimeArray cls factors arrays n static) t = Inr R \<and>
           shape R = b @ [n, n] \<and>
           (\<forall>j r c. valid b j \<and> r < n \<and> c < n \<longrightarrow>
              elem R (j @ [r, c]) =
                (\<Sum>i<length factors. elem (vs ! i) j * elem arrays [i, r, c]) + elem static [r, c])"
proof -
  let ?W = "\<lambda>j. \<Sum>i<length vs.
                elem (vs ! i) (take (length b) j) * elem arrays (i # drop (length b) j)"
  let ?R = "tabulate (b @ [n, n]) (\<lambda>j. ?W j + elem static (drop (length b) j))"
  have m: "mapM (\<lambda>x. Factor_call x t) factors = Inr vs"
    using assms(2,3) by (intro mapM_eq_InrI) simp_all
  have ne: "vs \<noteq> []" using assms(1,2) by auto
  have sh: "\<forall>v \<in> set vs. shape v = b"
    using assms(2,3) by (auto simp: in_set_conv_nth)
  have ar: "shape arrays = [length vs, n, n]" using assms(2,4) by simp
  have w: "seq (stack_last vs) (\<lambda>values.
         seq (reshape values (shape values @ [1, 1])) (\<lambda>values.
         seq (mul_nd values arrays) (\<lambda>weighted.
         seq (sum_axis_m3 weighted) (\<lambda>total. add_nd total static)))) =
        seq (seq (stack_last vs) (\<lambda>values.
         seq (reshape values (shape values @ [1, 1])) (\<lambda>values.
         seq (mul_nd values arrays) (\<lambda>weighted. sum_axis_m3 weighted))))
          (\<lambda>total. add_nd total static)"
    by (simp add: seq_def split: sum.splits)
  have "TimeArray_call (FactorTimeArray cls factors arrays n static) t =
        seq (seq (stack_last vs) (\<lambda>values.
         seq (reshape values (shape values @ [1, 1])) (\<lambda>values.
         seq (mul_nd values arrays) (\<lambda>weighted. sum_axis_m3 weighted))))
          (\<lambda>total. add_nd total static)"
    unfolding w[symmetric] using m by (simp del: One_nat_def)
  then have call: "TimeArray_call (FactorTimeArray cls factors arrays n static) t = Inr ?R"
    by (simp only: weighted_sum_eq[OF ne sh ar] seq_Inr add_nd_tabulate_matrix[OF assms(5)])
  have el: "\<forall>j r c. valid b j \<and> r < n \<and> c < n \<longrightarrow>
              elem ?R (j @ [r, c]) =
                (\<Sum>i<length factors. elem (vs ! i) j * elem arrays [i, r, c]) + elem static [r, c]"
  proof (intro allI impI)
    fix j r c assume h: "valid b j \<and> r < n \<and> c < n"
    then have "valid (b @ [n, n]) (j @ [r, c])"
      using valid_length[of b j] by (subst valid_append) simp_all
    then show "elem ?R (j @ [r, c]) =
                (\<Sum>i<length factors. elem (vs ! i) j * elem arrays [i, r, c]) + elem static [r, c]"
      using valid_length[of b j] h assms(2) by simp
  qed
  show ?thesis using call el by (intro exI[of _ ?R]) simp
qed

theorem FactorTimeArray_call_weighted_sum_witness:
  "\<exists>R. TimeArray_call (FactorTimeArray (PWCTimeArray [0, 1, 2])
            [PWCFactor float32 [0, 1, 2] (NDArray [2, 2] [1, 2, 3, 4]) 2,
             PWCFactor float32 [0, 2] (NDArray [2, 1] [10, 20]) 1]
            (NDArray [2, 2, 2] [1, 0, 0, 1, 0, 1, 1, 0]) 2 (NDArray [2, 2] [100, 0, 0, 0])) 1 = Inr R \<and>
        shape R = [2, 2, 2] \<and>
        elem R [0, 0, 0] = 102 \<and> elem R [0, 0, 1] = 10 \<and>
        elem R [1, 1, 0] = 20 \<and> elem R [1, 1, 1] = 4"
proof -
  let ?F1 = "PWCFactor float32 [0, 1, 2] (NDArray [2, 2] [1, 2, 3, 4]) 2"
  let ?F2 = "PWCFactor float32 [0, 2] (NDArray [2, 1] [10, 20]) 1"
  let ?fs = "[?F1, ?F2]"
  let ?vs = "[NDArray [2] [2, 4 :: complex], NDArray [2] [10, 20]]"
  let ?A = "NDArray [2, 2, 2] [1, 0, 0, 1, 0, 1, 1, 0 :: complex]"
  let ?S = "NDArray [2, 2] [100, 0, 0, 0 :: complex]"
  have f1: "Factor_call ?F1 1 = Inr (NDArray [2] [2, 4])" by code_simp
  have f2: "Factor_call ?F2 1 = Inr (NDArray [2] [10, 20])" by code_simp
  have h1: "?fs \<noteq> []" by simp
  have h2: "length ?vs = length ?fs" by simp
  have h3: "\<forall>i<length ?fs. Factor_call (?fs ! i) 1 = Inr (?vs ! i) \<and> shape (?vs ! i) = [2]"
    using f1 f2 by (simp add: less_Suc_eq nth_Cons')
  have h4: "shape ?A = [length ?fs, 2, 2]" by simp
  have h5: "shape ?S = [2, 2]" by simp
  from FactorTimeArray_call_weighted_sum[OF h1 h2 h3 h4 h5, of "PWCTimeArray [0, 1, 2]"]
  obtain R where R: "TimeArray_call (FactorTimeArray (PWCTimeArray [0, 1, 2]) ?fs ?A 2 ?S) 1 = Inr R"
      "shape R = [2] @ [2, 2]"
      "\<forall>j r c. valid [2] j \<and> r < 2 \<and> c < 2 \<longrightarrow>
              elem R (j @ [r, c]) =
                (\<Sum>i<length ?fs. elem (?vs ! i) j * elem ?A [i, r, c]) + elem ?S [r, c]"
    by blast
  have s2: "\<And>g :: nat \<Rightarrow> complex. (\<Sum>i<length ?fs. g i) = g 0 + g 1"
    by (simp add: lessThan_Suc)
  have e1: "elem R ([0] @ [0, 0]) = 102"
    using R(3)[rule_format, of "[0]" 0 0] unfolding s2 by (simp add: elem_def)
  have e2: "elem R ([0] @ [0, 1]) = 10"
    using R(3)[rule_format, of "[0]" 0 1] unfolding s2 by (simp add: elem_def)
  have e3: "elem R ([1] @ [1, 0]) = 20"
    using R(3)[rule_format, of "[1]" 1 0] unfolding s2 by (simp add: elem_def)
  have e4: "elem R ([1] @ [1, 1]) = 4"
    using R(3)[rule_format, of "[1]" 1 1] unfolding s2 by (simp add: elem_def)
  show ?thesis using R(1,2) e1 e2 e3 e4 by auto
qed

section \<open>Adding two piecewise-constant time arrays\<close>

lemma mapM_append:
  "mapM g xs = Inr vs \<Longrightarrow> mapM g ys = Inr ws \<Longrightarrow> mapM g (xs @ ys) = Inr (vs @ ws)"
  by (induction xs arbitrary: vs) (auto simp: seq_eq_Inr)

lemma set_unique [simp]: "set (unique xs) = set xs"
  by (simp add: unique_def)

lemma strict_sorted_remdups_adj:
  "sorted (xs::real list) \<Longrightarrow> sorted_wrt (<) (remdups_adj xs)"
  by (induction xs rule: remdups_adj.induct) (auto simp: less_le)

lemma strict_sorted_unique: "sorted_wrt (<) (unique xs)"
  by (simp add: unique_def strict_sorted_remdups_adj)

lemma unique_eqI: "set xs = set ys \<Longrightarrow> unique xs = unique ys"
proof -
  assume "set xs = set ys"
  then have "set (unique xs) = set (unique ys)" by simp
  moreover have "sorted (unique xs)" "distinct (unique xs)" "sorted (unique ys)" "distinct (unique ys)"
    using strict_sorted_unique[of xs] strict_sorted_unique[of ys] by (simp_all add: strict_sorted_iff)
  ultimately show ?thesis by (intro sorted_distinct_set_unique)
qed

lemma add_nd_same_shape:
  assumes "shape x = s" "shape y = s"
  shows "add_nd x y = Inr (tabulate s (\<lambda>j. elem x j + elem y j))"
proof -
  have "map2 broadcast_dim s s = map Some s" by (induction s) simp_all
  then have bs: "broadcast_shapes s s = Some s"
    by (simp add: broadcast_shapes_def pad_shape_def)
  have "tabulate s (\<lambda>idx. elem x (bidx s idx) + elem y (bidx s idx)) =
        tabulate s (\<lambda>j. elem x j + elem y j)"
    by (rule tabulate_cong) (simp add: bidx_valid)
  then show ?thesis using bs assms by (simp add: broadcast_op_def)
qed

lemma PWCTimeArray_init_Some:
  "PWCTimeArray_init factors arrays (Some static) = Inr a \<longleftrightarrow>
   shape arrays \<noteq> [] \<and> factors \<noteq> [] \<and>
   (\<exists>tss. mapM Factor_times factors = Inr tss \<and>
      a = FactorTimeArray (PWCTimeArray (unique (concat tss))) factors arrays
            (last (shape arrays)) static)"
proof (cases "mapM Factor_times factors")
  case (Inl e)
  then show ?thesis by (simp add: PWCTimeArray_init_def FactorTimeArray_init_def)
next
  case (Inr tss)
  then have "length tss = length factors" by (rule mapM_length)
  then have "tss = [] \<longleftrightarrow> factors = []" by auto
  then show ?thesis using Inr
    by (auto simp: PWCTimeArray_init_def FactorTimeArray_init_def concatenate_1d_def Let_def)
qed

text \<open>Claim C5.  The sum of two PWC time arrays, each as its constructor built it, with
  \<open>nf1\<close> and \<open>nf2\<close> factors and base matrices and static parts of one dimension \<open>n\<close>, is
  a PWC time array whose factor list is the two lists concatenated (\<open>nf1 + nf2\<close> factors),
  whose base matrices are the two stacks concatenated, whose static part is the sum of the
  two static parts, and whose merged times are the sorted union, without repetition, of the
  merged times of the two.\<close>

theorem PWCTimeArray_add_PWCTimeArray:
  assumes a: "PWCTimeArray_init factors1 arrays1 (Some static1) =
                Inr (FactorTimeArray (PWCTimeArray times1) factors1 arrays1 n static1)"
    and b: "PWCTimeArray_init factors2 arrays2 (Some static2) =
                Inr (FactorTimeArray (PWCTimeArray times2) factors2 arrays2 n static2)"
    and "shape arrays1 = [length factors1, n, n]" and "shape arrays2 = [length factors2, n, n]"
    and "shape static1 = [n, n]" and "shape static2 = [n, n]"
  shows "\<exists>times12.
     TimeArray_add (FactorTimeArray (PWCTimeArray times1) factors1 arrays1 n static1)
        (TimeArr (FactorTimeArray (PWCTimeArray times2) factors2 arrays2 n static2)) =
       Inr (Some (FactorTimeArray (PWCTimeArray times12) (factors1 @ factors2)
          (NDArray [length factors1 + length factors2, n, n] (data arrays1 @ data arrays2)) n
          (tabulate [n, n] (\<lambda>j. elem static1 j + elem static2 j)))) \<and>
     length (factors1 @ factors2) = length factors1 + length factors2 \<and>
     sorted_wrt (<) times12 \<and> set times12 = set times1 \<union> set times2 \<and>
     times12 = unique (times1 @ times2)"
proof -
  from a obtain tss1 where t1: "mapM Factor_times factors1 = Inr tss1"
      "times1 = unique (concat tss1)" "factors1 \<noteq> []"
    unfolding PWCTimeArray_init_Some by auto
  from b obtain tss2 where t2: "mapM Factor_times factors2 = Inr tss2"
      "times2 = unique (concat tss2)" "factors2 \<noteq> []"
    unfolding PWCTimeArray_init_Some by auto
  let ?ts = "unique (concat (tss1 @ tss2))"
  let ?A = "NDArray [length factors1 + length factors2, n, n] (data arrays1 @ data arrays2)"
  let ?S = "tabulate [n, n] (\<lambda>j. elem static1 j + elem static2 j)"
  have cat: "concatenate2 arrays1 arrays2 = Inr ?A"
    using assms(3,4) by (simp add: concatenate2_def)
  have st: "add_nd static1 static2 = Inr ?S"
    using assms(5,6) by (rule add_nd_same_shape)
  have m: "mapM Factor_times (factors1 @ factors2) = Inr (tss1 @ tss2)"
    using t1(1) t2(1) by (rule mapM_append)
  have init: "PWCTimeArray_init (factors1 @ factors2) ?A (Some ?S) =
        Inr (FactorTimeArray (PWCTimeArray ?ts) (factors1 @ factors2) ?A n ?S)"
    unfolding PWCTimeArray_init_Some using m t1(3) by simp
  have add: "TimeArray_add (FactorTimeArray (PWCTimeArray times1) factors1 arrays1 n static1)
        (TimeArr (FactorTimeArray (PWCTimeArray times2) factors2 arrays2 n static2)) =
       Inr (Some (FactorTimeArray (PWCTimeArray ?ts) (factors1 @ factors2) ?A n ?S))"
    by (simp add: cat st init)
  have set: "set ?ts = set times1 \<union> set times2" using t1(2) t2(2) by simp
  have "?ts = unique (times1 @ times2)"
    by (rule unique_eqI) (simp add: t1(2) t2(2))
  with add set strict_sorted_unique[of "concat (tss1 @ tss2)"] show ?thesis
    by (intro exI[of _ ?ts]) simp
qed

theorem PWCTimeArray_add_PWCTimeArray_witness:
  "TimeArray_add
     (FactorTimeArray (PWCTimeArray [0, 1, 2]) [PWCFactor float32 [0, 1, 2] (NDArray [2] [3, 5]) 2]
        (NDArray [1, 1, 1] [1]) 1 (NDArray [1, 1] [0]))
     (TimeArr (FactorTimeArray (PWCTimeArray [1, 3]) [PWCFactor float32 [1, 3] (NDArray [1] [7]) 1]
        (NDArray [1, 1, 1] [2]) 1 (NDArray [1, 1] [4]))) =
   Inr (Some (FactorTimeArray (PWCTimeArray [0, 1, 2, 3])
      [PWCFactor float32 [0, 1, 2] (NDArray [2] [3, 5]) 2, PWCFactor float32 [1, 3] (NDArray [1] [7]) 1]
      (NDArray [2, 1, 1] [1, 2]) 1 (NDArray [1, 1] [4])))"
proof -
  let ?f1 = "[PWCFactor float32 [0, 1, 2] (NDArray [2] [3, 5]) 2]"
  let ?f2 = "[PWCFactor float32 [1, 3] (NDArray [1] [7]) 1]"
  let ?A1 = "NDArray [1, 1, 1] [1 :: complex]"
  let ?A2 = "NDArray [1, 1, 1] [2 :: complex]"
  let ?S1 = "NDArray [1, 1] [0 :: complex]"
  let ?S2 = "NDArray [1, 1] [4 :: complex]"
  have a: "PWCTimeArray_init ?f1 ?A1 (Some ?S1) =
            Inr (FactorTimeArray (PWCTimeArray [0, 1, 2]) ?f1 ?A1 1 ?S1)"
    by (simp add: PWCTimeArray_init_def FactorTimeArray_init_def concatenate_1d_def unique_def)
  have b: "PWCTimeArray_init ?f2 ?A2 (Some ?S2) =
            Inr (FactorTimeArray (PWCTimeArray [1, 3]) ?f2 ?A2 1 ?S2)"
    by (simp add: PWCTimeArray_init_def FactorTimeArray_init_def concatenate_1d_def unique_def)
  have h3: "shape ?A1 = [length ?f1, 1, 1]" by simp
  have h4: "shape ?A2 = [length ?f2, 1, 1]" by simp
  have h5: "shape ?S1 = [1, 1]" by simp
  have h6: "shape ?S2 = [1, 1]" by simp
  have u: "unique ([0, 1, 2] @ [1, 3]) = [0, 1, 2, 3]" by (simp add: unique_def)
  show ?thesis
    using PWCTimeArray_add_PWCTimeArray[OF a b h3 h4 h5 h6]
    unfolding u by (auto simp: tabulate_def elem_def)
qed

section \<open>Broadcasting is associative\<close>

lemma those_snoc:
  "those (xs @ [x]) = (case those xs of None \<Rightarrow> None | Some ys \<Rightarrow> map_option (\<lambda>y. ys @ [y]) x)"
  by (induction xs) (auto simp: option.map_comp comp_def split: option.splits)

lemma those_rev: "those (rev xs) = map_option rev (those xs)"
  by (induction xs) (auto simp: those_snoc split: option.splits)

lemma bsr_Nil2 [simp]: "bsr xs [] = Some xs"
  by (cases xs) simp_all

lemma those_bsr:
  "those (map2 broadcast_dim (xs @ replicate (length ys - length xs) 1)
                             (ys @ replicate (length xs - length ys) 1)) = bsr xs ys"
proof (induction xs ys rule: bsr.induct)
  case (1 ys)
  have "map2 broadcast_dim (replicate (length ys) (Suc 0)) ys = map Some ys"
    by (induction ys) simp_all
  then show ?case by simp
next
  case (2 v va)
  have "map2 broadcast_dim (v # va) (replicate (Suc (length va)) (Suc 0)) = map Some (v # va)"
    using map2_broadcast_dim_ones[of "v # va"] by simp
  then show ?case by simp
next
  case (3 x xs y ys)
  then show ?case by (simp split: option.splits)
qed

lemma map2_rev:
  "length xs = length ys \<Longrightarrow> map2 g xs ys = rev (map2 g (rev xs) (rev ys))"
  by (simp add: zip_rev rev_map)

lemma length_pad_shape: "length s \<le> k \<Longrightarrow> length (pad_shape k s) = k"
  by (simp add: pad_shape_def)

lemma broadcast_shapes_bsr:
  "broadcast_shapes s1 s2 = map_option rev (bsr (rev s1) (rev s2))"
proof -
  let ?k = "max (length s1) (length s2)"
  have "map2 broadcast_dim (pad_shape ?k s1) (pad_shape ?k s2) =
        rev (map2 broadcast_dim (rev (pad_shape ?k s1)) (rev (pad_shape ?k s2)))"
    by (rule map2_rev) (simp add: length_pad_shape)
  moreover have "rev (pad_shape ?k s1) = rev s1 @ replicate (length (rev s2) - length (rev s1)) 1"
    by (simp add: pad_shape_def)
  moreover have "rev (pad_shape ?k s2) = rev s2 @ replicate (length (rev s1) - length (rev s2)) 1"
    by (simp add: pad_shape_def)
  ultimately have "map2 broadcast_dim (pad_shape ?k s1) (pad_shape ?k s2) =
     rev (map2 broadcast_dim (rev s1 @ replicate (length (rev s2) - length (rev s1)) 1)
                             (rev s2 @ replicate (length (rev s1) - length (rev s2)) 1))"
    by simp
  then show ?thesis
    unfolding broadcast_shapes_def Let_def by (simp only: those_rev those_bsr)
qed

lemma bir_map2:
  "length ds = length js \<Longrightarrow> bir ds js = map2 (\<lambda>d i. if d = 1 then 0 else i) ds js"
  by (induction ds js rule: list_induct2) simp_all

lemma bir_append_right: "length ds = length js \<Longrightarrow> bir ds (js @ zs) = bir ds js"
  by (induction ds js rule: list_induct2) simp_all

lemma bidx_bir:
  assumes "length s \<le> length idx"
  shows "bidx s idx = rev (bir (rev s) (rev idx))"
proof -
  let ?k = "length idx - length s"
  have len: "length (rev s) = length (rev (drop ?k idx))" using assms by simp
  have "rev idx = rev (drop ?k idx) @ rev (take ?k idx)"
    by (metis append_take_drop_id rev_append)
  then have "bir (rev s) (rev idx) = bir (rev s) (rev (drop ?k idx))"
    using bir_append_right[OF len] by simp
  also have "\<dots> = map2 (\<lambda>d i. if d = 1 then 0 else i) (rev s) (rev (drop ?k idx))"
    by (rule bir_map2[OF len])
  finally have b: "bir (rev s) (rev idx) =
      map2 (\<lambda>d i. if d = 1 then 0 else i) (rev s) (rev (drop ?k idx))" .
  have "bidx s idx = map2 (\<lambda>d i. if d = 1 then 0 else i) s (drop ?k idx)"
    by (simp add: bidx_def)
  also have "\<dots> = rev (map2 (\<lambda>d i. if d = 1 then 0 else i) (rev s) (rev (drop ?k idx)))"
    by (rule map2_rev) (use assms in simp)
  finally show ?thesis unfolding b .
qed

lemma broadcast_dim_assoc:
  "Option.bind (broadcast_dim x y) (\<lambda>d. broadcast_dim d z) =
   Option.bind (broadcast_dim y z) (\<lambda>d. broadcast_dim x d)"
  by (auto simp: broadcast_dim_def)

lemma bsr_assoc:
  "Option.bind (bsr a b) (\<lambda>ab. bsr ab c) = Option.bind (bsr b c) (\<lambda>bc. bsr a bc)"
proof (induction a arbitrary: b c)
  case Nil
  show ?case by simp
next
  case (Cons x xs)
  show ?case
  proof (cases b)
    case Nil then show ?thesis by simp
  next
    case b: (Cons y ys)
    show ?thesis
    proof (cases c)
      case Nil then show ?thesis by (simp add: b)
    next
      case c: (Cons z zs)
      note IH = Cons.IH[of ys zs]
      note D = broadcast_dim_assoc[of x y z]
      show ?thesis
      proof (cases "bsr xs ys")
        case None
        then have r: "Option.bind (bsr ys zs) (\<lambda>bc. bsr xs bc) = None" using IH by simp
        show ?thesis using None r D
          by (auto simp: b c split: option.splits Option.bind_splits)
      next
        case (Some r)
        then have r: "Option.bind (bsr ys zs) (\<lambda>bc. bsr xs bc) = bsr r zs" using IH by simp
        show ?thesis using Some r D
          by (auto simp: b c split: option.splits Option.bind_splits)
      qed
    qed
  qed
qed

lemma length_bsr: "bsr a b = Some s \<Longrightarrow> length s = max (length a) (length b)"
proof (induction a b arbitrary: s rule: bsr.induct)
  case (3 x xs y ys)
  then show ?case by (auto split: option.splits)
qed simp_all

lemma broadcast_dim_Some_cases:
  "broadcast_dim x y = Some d \<Longrightarrow> (x = d \<or> x = 1) \<and> (y = d \<or> y = 1)"
  by (auto simp: broadcast_dim_def split: if_splits)

lemma bir_valid_self: "list_all2 (<) j a \<Longrightarrow> list_all2 (<) (bir a j) a"
  by (induction j a rule: list_all2_induct) auto

lemma bir_valid_left:
  "bsr a b = Some s \<Longrightarrow> list_all2 (<) i s \<Longrightarrow> list_all2 (<) (bir a i) a"
proof (induction a b arbitrary: s i rule: bsr.induct)
  case (1 ys) then show ?case by simp
next
  case (2 v va)
  then show ?case using bir_valid_self[of i "v # va"] by simp
next
  case (3 x xs y ys)
  from "3.prems"(1) obtain d s' where d: "broadcast_dim x y = Some d" "bsr xs ys = Some s'" "s = d # s'"
    by (auto split: option.splits)
  from "3.prems"(2) d(3) obtain k i' where i: "i = k # i'" "k < d" "list_all2 (<) i' s'"
    by (auto simp: list_all2_Cons2)
  have "list_all2 (<) (bir xs i') xs" using "3.IH"[OF d(1,2) i(3)] .
  then show ?case using i broadcast_dim_Some_cases[OF d(1)] by auto
qed

lemma bsr_commute: "bsr a b = bsr b a"
proof (induction a b rule: bsr.induct)
  case (3 x xs y ys)
  have "broadcast_dim x y = broadcast_dim y x" by (auto simp: broadcast_dim_def)
  then show ?case using 3 by (auto split: option.splits)
qed simp_all

lemma bir_valid_right:
  "bsr a b = Some s \<Longrightarrow> list_all2 (<) i s \<Longrightarrow> list_all2 (<) (bir b i) b"
  using bir_valid_left[of b a s i] by (simp add: bsr_commute)

lemma bir_self: "bir a (bir a i) = bir a i"
  by (induction a i rule: bir.induct) simp_all

lemma bir_bir_left:
  "bsr a b = Some s \<Longrightarrow> bir a (bir s i) = bir a i"
proof (induction a b arbitrary: s i rule: bsr.induct)
  case (1 ys) then show ?case by simp
next
  case (2 v va) then show ?case by (simp add: bir_self)
next
  case (3 x xs y ys)
  from "3.prems"(1) obtain d s' where d: "broadcast_dim x y = Some d" "bsr xs ys = Some s'" "s = d # s'"
    by (auto split: option.splits)
  show ?case
  proof (cases i)
    case Nil then show ?thesis by (simp add: d)
  next
    case (Cons k i')
    then show ?thesis
      using "3.IH"[OF d(1,2), of i'] broadcast_dim_Some_cases[OF d(1)] by (auto simp: d)
  qed
qed

lemma bir_bir_right:
  "bsr a b = Some s \<Longrightarrow> bir b (bir s i) = bir b i"
  using bir_bir_left[of b a s i] by (simp add: bsr_commute)

lemma valid_rev: "valid s i \<longleftrightarrow> list_all2 (<) (rev i) (rev s)"
  by (simp add: valid_def list_all2_rev)

lemma length_broadcast_shapes:
  "broadcast_shapes s1 s2 = Some s \<Longrightarrow> length s = max (length s1) (length s2)"
  using length_bsr[of "rev s1" "rev s2"] by (auto simp: broadcast_shapes_bsr)

lemma bidx_valid_left:
  assumes "broadcast_shapes s1 s2 = Some s" "valid s i"
  shows "valid s1 (bidx s1 i)"
proof -
  from assms(1) obtain r where r: "bsr (rev s1) (rev s2) = Some r" "s = rev r"
    by (auto simp: broadcast_shapes_bsr)
  have len: "length s1 \<le> length i"
    using length_broadcast_shapes[OF assms(1)] valid_length[OF assms(2)] by simp
  have "list_all2 (<) (rev i) r" using assms(2) r(2) by (simp add: valid_rev)
  then have "list_all2 (<) (bir (rev s1) (rev i)) (rev s1)" by (rule bir_valid_left[OF r(1)])
  then show ?thesis by (simp add: valid_rev bidx_bir[OF len])
qed

lemma broadcast_shapes_commute: "broadcast_shapes s1 s2 = broadcast_shapes s2 s1"
  by (simp add: broadcast_shapes_bsr bsr_commute)

lemma bidx_valid_right:
  "broadcast_shapes s1 s2 = Some s \<Longrightarrow> valid s i \<Longrightarrow> valid s2 (bidx s2 i)"
  using bidx_valid_left[of s2 s1 s i] by (simp add: broadcast_shapes_commute)

lemma bidx_bidx_left:
  assumes "broadcast_shapes s1 s2 = Some s" "length s \<le> length i"
  shows "bidx s1 (bidx s i) = bidx s1 i"
proof -
  from assms(1) obtain r where r: "bsr (rev s1) (rev s2) = Some r" "s = rev r"
    by (auto simp: broadcast_shapes_bsr)
  have l1: "length s1 \<le> length s" using length_broadcast_shapes[OF assms(1)] by simp
  have lb: "length (bidx s i) = length s" using assms(2) by (simp add: bidx_def)
  have "bidx s1 (bidx s i) = rev (bir (rev s1) (rev (bidx s i)))"
    using l1 lb by (intro bidx_bir) simp
  also have "rev (bidx s i) = bir r (rev i)"
    using bidx_bir[OF assms(2)] r(2) by simp
  also have "bir (rev s1) (bir r (rev i)) = bir (rev s1) (rev i)"
    by (rule bir_bir_left[OF r(1)])
  also have "rev (bir (rev s1) (rev i)) = bidx s1 i"
    using l1 assms(2) by (intro bidx_bir[symmetric]) simp
  finally show ?thesis .
qed

lemma bidx_bidx_right:
  "broadcast_shapes s1 s2 = Some s \<Longrightarrow> length s \<le> length i \<Longrightarrow> bidx s2 (bidx s i) = bidx s2 i"
  using bidx_bidx_left[of s2 s1 s i] by (simp add: broadcast_shapes_commute)

lemma broadcast_shapes_assoc:
  "Option.bind (broadcast_shapes s1 s2) (\<lambda>s12. broadcast_shapes s12 s3) =
   Option.bind (broadcast_shapes s2 s3) (\<lambda>s23. broadcast_shapes s1 s23)"
  using bsr_assoc[of "rev s1" "rev s2" "rev s3"]
  by (cases "bsr (rev s1) (rev s2)"; cases "bsr (rev s2) (rev s3)")
     (simp_all add: broadcast_shapes_bsr)

lemma broadcast_op_Inr:
  "broadcast_op g a b = Inr r \<longleftrightarrow>
   (\<exists>s. broadcast_shapes (shape a) (shape b) = Some s \<and>
        r = tabulate s (\<lambda>idx. g (elem a (bidx (shape a) idx)) (elem b (bidx (shape b) idx))))"
  by (auto simp: broadcast_op_def split: option.splits)

lemma add_nd_assoc:
  fixes a b c :: "('a::semigroup_add) ndarray"
  assumes bc: "add_nd b c = Inr bc"
  shows "add_nd a bc = Inr r \<longleftrightarrow> (\<exists>ab. add_nd a b = Inr ab \<and> add_nd ab c = Inr r)"
proof -
  let ?sa = "shape a" and ?sb = "shape b" and ?sc = "shape c"
  from bc obtain sbc where sbc: "broadcast_shapes ?sb ?sc = Some sbc"
    and bcv: "bc = tabulate sbc (\<lambda>i. elem b (bidx ?sb i) + elem c (bidx ?sc i))"
    unfolding broadcast_op_Inr by blast
  have shbc: "shape bc = sbc" by (simp add: bcv)
  note assoc = broadcast_shapes_assoc[of ?sa ?sb ?sc]
  show ?thesis
  proof (cases "broadcast_shapes ?sa sbc")
    case None
    then have "Option.bind (broadcast_shapes ?sa ?sb) (\<lambda>s12. broadcast_shapes s12 ?sc) = None"
      using assoc sbc by simp
    then have "\<not> (\<exists>ab. add_nd a b = Inr ab \<and> add_nd ab c = Inr r)"
      unfolding broadcast_op_Inr by (auto split: Option.bind_splits)
    moreover have "add_nd a bc \<noteq> Inr r" using None shbc by (simp add: broadcast_op_Inr)
    ultimately show ?thesis by simp
  next
    case (Some s)
    then have "Option.bind (broadcast_shapes ?sa ?sb) (\<lambda>s12. broadcast_shapes s12 ?sc) = Some s"
      using assoc sbc by simp
    then obtain sab where sab: "broadcast_shapes ?sa ?sb = Some sab"
      and s2: "broadcast_shapes sab ?sc = Some s"
      by (auto split: Option.bind_splits)
    define ab where "ab = tabulate sab (\<lambda>i. elem a (bidx ?sa i) + elem b (bidx ?sb i))"
    have ab: "add_nd a b = Inr ab" using sab by (simp add: broadcast_op_def ab_def)
    have left: "add_nd a bc = Inr (tabulate s (\<lambda>i. elem a (bidx ?sa i) + elem bc (bidx sbc i)))"
      using Some shbc by (simp add: broadcast_op_def)
    have right: "add_nd ab c = Inr (tabulate s (\<lambda>i. elem ab (bidx sab i) + elem c (bidx ?sc i)))"
      using s2 by (simp add: broadcast_op_def ab_def)
    have eq: "tabulate s (\<lambda>i. elem a (bidx ?sa i) + elem bc (bidx sbc i)) =
          tabulate s (\<lambda>i. elem ab (bidx sab i) + elem c (bidx ?sc i))"
    proof (rule tabulate_cong)
      fix i assume v: "valid s i"
      have li: "length s \<le> length i" "length sab \<le> length i" "length sbc \<le> length i"
        using valid_length[OF v] length_broadcast_shapes[OF s2] length_broadcast_shapes[OF Some]
        by simp_all
      have v1: "valid sbc (bidx sbc i)" by (rule bidx_valid_right[OF Some v])
      have v2: "valid sab (bidx sab i)" by (rule bidx_valid_left[OF s2 v])
      have "elem bc (bidx sbc i) = elem b (bidx ?sb (bidx sbc i)) + elem c (bidx ?sc (bidx sbc i))"
        using v1 by (simp add: bcv)
      also have "\<dots> = elem b (bidx ?sb i) + elem c (bidx ?sc i)"
        using bidx_bidx_left[OF sbc li(3)] bidx_bidx_right[OF sbc li(3)] by simp
      finally have e1: "elem bc (bidx sbc i) = elem b (bidx ?sb i) + elem c (bidx ?sc i)" .
      have "elem ab (bidx sab i) = elem a (bidx ?sa (bidx sab i)) + elem b (bidx ?sb (bidx sab i))"
        using v2 by (simp add: ab_def)
      also have "\<dots> = elem a (bidx ?sa i) + elem b (bidx ?sb i)"
        using bidx_bidx_left[OF sab li(2)] bidx_bidx_right[OF sab li(2)] by simp
      finally have e2: "elem ab (bidx sab i) = elem a (bidx ?sa i) + elem b (bidx ?sb i)" .
      show "elem a (bidx ?sa i) + elem bc (bidx sbc i) = elem ab (bidx sab i) + elem c (bidx ?sc i)"
        by (simp add: e1 e2 add.assoc)
    qed
    show ?thesis using ab left right eq by auto
  qed
qed

section \<open>Adding a constant to a composite time array\<close>

lemma self_class_static:
  assumes "self_class cls factors arrays (Some static) =
             Inr (FactorTimeArray cls factors arrays n static)"
  shows "self_class cls factors arrays (Some static') =
             Inr (FactorTimeArray cls factors arrays n static')"
proof (cases cls)
  case (PWCTimeArray ts)
  then show ?thesis using assms by (auto simp: PWCTimeArray_init_Some)
next
  case ModulatedTimeArray
  then show ?thesis using assms
    by (auto simp: ModulatedTimeArray_init_def FactorTimeArray_init_def Let_def split: if_splits)
qed

lemma FactorTimeArray_call_static:
  "\<exists>X. \<forall>static. TimeArray_call (FactorTimeArray cls factors arrays n static) t =
         seq X (\<lambda>total. add_nd total static)"
proof -
  let ?X = "seq (mapM (\<lambda>x. Factor_call x t) factors) (\<lambda>xs.
     seq (stack_last xs) (\<lambda>values.
     seq (reshape values (shape values @ [1, 1])) (\<lambda>values.
     seq (mul_nd values arrays) (\<lambda>weighted. sum_axis_m3 weighted))))"
  have "\<forall>static. TimeArray_call (FactorTimeArray cls factors arrays n static) t =
         seq ?X (\<lambda>total. add_nd total static)"
    by (simp add: seq_def split: sum.splits)
  then show ?thesis by blast
qed

text \<open>Claim C6.  For a composite time array as its constructor built it and an array \<open>y\<close>
  that broadcasts against the static part, adding \<open>y\<close>, or the constant time array of
  \<open>y\<close>, gives a composite time array of the same class with the same factors and base
  matrices; only the static part changes, to \<open>static + y\<close>.  At every time the new time
  array returns \<open>r\<close> exactly when the old one returns some \<open>v\<close> with \<open>v + y = r\<close>.\<close>

theorem FactorTimeArray_add_constant:
  assumes "self_class cls factors arrays (Some static) =
             Inr (FactorTimeArray cls factors arrays n static)"
    and "add_nd static y = Inr static'"
  shows "TimeArray_add (FactorTimeArray cls factors arrays n static) (Array y) =
           Inr (Some (FactorTimeArray cls factors arrays n static')) \<and>
         TimeArray_add (FactorTimeArray cls factors arrays n static) (TimeArr (ConstantTimeArray y)) =
           Inr (Some (FactorTimeArray cls factors arrays n static')) \<and>
         (\<forall>t r. TimeArray_call (FactorTimeArray cls factors arrays n static') t = Inr r \<longleftrightarrow>
            (\<exists>v. TimeArray_call (FactorTimeArray cls factors arrays n static) t = Inr v \<and>
                 add_nd v y = Inr r))"
proof (intro conjI allI)
  note sc = self_class_static[OF assms(1), of static']
  show "TimeArray_add (FactorTimeArray cls factors arrays n static) (Array y) =
           Inr (Some (FactorTimeArray cls factors arrays n static'))"
    by (simp add: assms(2) sc)
  show "TimeArray_add (FactorTimeArray cls factors arrays n static) (TimeArr (ConstantTimeArray y)) =
           Inr (Some (FactorTimeArray cls factors arrays n static'))"
    by (simp add: assms(2) sc)
  fix t r
  from FactorTimeArray_call_static[of cls factors arrays n t]
  obtain X where X: "\<And>s. TimeArray_call (FactorTimeArray cls factors arrays n s) t =
         seq X (\<lambda>total. add_nd total s)" by blast
  show "TimeArray_call (FactorTimeArray cls factors arrays n static') t = Inr r \<longleftrightarrow>
            (\<exists>v. TimeArray_call (FactorTimeArray cls factors arrays n static) t = Inr v \<and>
                 add_nd v y = Inr r)"
  proof (cases X)
    case (Inl e)
    then show ?thesis unfolding X by simp
  next
    case (Inr total)
    then show ?thesis unfolding X using add_nd_assoc[OF assms(2), of total r] by simp
  qed
qed

theorem FactorTimeArray_add_constant_witness:
  "TimeArray_add (FactorTimeArray (PWCTimeArray [0, 1, 2])
       [PWCFactor float32 [0, 1, 2] (NDArray [2] [3, 5]) 2] (NDArray [1, 1, 1] [2]) 1 (NDArray [1, 1] [10]))
     (Array (NDArray [] [7])) =
   Inr (Some (FactorTimeArray (PWCTimeArray [0, 1, 2])
       [PWCFactor float32 [0, 1, 2] (NDArray [2] [3, 5]) 2] (NDArray [1, 1, 1] [2]) 1 (NDArray [1, 1] [17]))) \<and>
   TimeArray_call (FactorTimeArray (PWCTimeArray [0, 1, 2])
       [PWCFactor float32 [0, 1, 2] (NDArray [2] [3, 5]) 2] (NDArray [1, 1, 1] [2]) 1 (NDArray [1, 1] [17])) 1 =
     Inr (NDArray [1, 1] [27])"
proof -
  let ?fs = "[PWCFactor float32 [0, 1, 2] (NDArray [2] [3, 5]) 2]"
  let ?A = "NDArray [1, 1, 1] [2 :: complex]"
  let ?S = "NDArray [1, 1] [10 :: complex]"
  let ?S' = "NDArray [1, 1] [17 :: complex]"
  let ?y = "NDArray [] [7 :: complex]"
  have h1: "self_class (PWCTimeArray [0, 1, 2]) ?fs ?A (Some ?S) =
              Inr (FactorTimeArray (PWCTimeArray [0, 1, 2]) ?fs ?A 1 ?S)"
    by (simp add: PWCTimeArray_init_def FactorTimeArray_init_def concatenate_1d_def unique_def)
  have h2: "add_nd ?S ?y = Inr ?S'"
    by (simp add: broadcast_op_def broadcast_shapes_def pad_shape_def tabulate_def elem_def bidx_def)
  note th = FactorTimeArray_add_constant[OF h1 h2]
  have c: "TimeArray_call (FactorTimeArray (PWCTimeArray [0, 1, 2]) ?fs ?A 1 ?S) 1 =
             Inr (NDArray [1, 1] [20])"
    by code_simp
  have a: "add_nd (NDArray [1, 1] [20 :: complex]) ?y = Inr (NDArray [1, 1] [27])"
    by (simp add: broadcast_op_def broadcast_shapes_def pad_shape_def tabulate_def elem_def bidx_def)
  have "TimeArray_call (FactorTimeArray (PWCTimeArray [0, 1, 2]) ?fs ?A 1 ?S') 1 =
          Inr (NDArray [1, 1] [27])"
    using th[THEN conjunct2, THEN conjunct2, rule_format, of 1 "NDArray [1, 1] [27]"] c a by blast
  then show ?thesis using th by blast
qed

section \<open>Errors of construction\<close>

text \<open>Claim C9.  With times that pass the check, PWC construction with values whose
  first dimension is not \<open>len(times) - 1\<close> raises the \<open>TypeError\<close> that names the shape of
  the values; with values of the right first dimension, PWC construction with an array that
  is not a square matrix raises the \<open>TypeError\<close> that names the shape of the array, and so
  does modulated construction once \<open>f(0.0)\<close> is an array of an accepted dtype; modulated
  construction with a function whose value at \<open>0.0\<close> is not an array raises the \<open>TypeError\<close>
  that names the type returned.  Each is the result of \<open>totime\<close> itself: no time array is
  made.\<close>

theorem construction_errors:
   "(asarray ts (rdtype_of dt) = Inr tsa \<and> check_time_array tsa = Inr () \<and>
     asarray values dt = Inr va \<and> shape va = d # s \<and> int d \<noteq> int (hd (shape tsa)) - 1 \<longrightarrow>
       totime cd (Tuple3 ts values array) (Some dt) = Inl (TypeError (PWC_values_shape (d # s)))) \<and>
    (asarray ts (rdtype_of dt) = Inr tsa \<and> check_time_array tsa = Inr () \<and>
     asarray values dt = Inr va \<and> shape va = d # s \<and> int d = int (hd (shape tsa)) - 1 \<and>
     asarray array dt = Inr aa \<and>
     (ndim aa \<noteq> 2 \<or> last (shape aa) \<noteq> last (butlast (shape aa))) \<longrightarrow>
       totime cd (Tuple3 ts values array) (Some dt) =
         Inl (TypeError (PWC_array_not_square (shape aa)))) \<and>
    (g 0 = Inr (JaxArray fd f0) \<and> (fd = dt \<or> fd = rdtype_of dt) \<and> asarray array dt = Inr aa \<and>
     (ndim aa \<noteq> 2 \<or> last (shape aa) \<noteq> last (butlast (shape aa))) \<longrightarrow>
       totime cd (Tuple2 (Function g) array) (Some dt) =
         Inl (TypeError (Modulated_array_not_square (shape aa)))) \<and>
    (g 0 = Inr v \<and> (\<forall>fd f0. v \<noteq> JaxArray fd f0) \<longrightarrow>
       totime cd (Tuple2 (Function g) array) (Some dt) =
         Inl (TypeError (Modulated_f_not_an_array (obj_type_str v))))"
proof (intro conjI impI)
  assume "asarray ts (rdtype_of dt) = Inr tsa \<and> check_time_array tsa = Inr () \<and>
     asarray values dt = Inr va \<and> shape va = d # s \<and> int d \<noteq> int (hd (shape tsa)) - 1"
  then show "totime cd (Tuple3 ts values array) (Some dt) =
      Inl (TypeError (PWC_values_shape (d # s)))"
    by (simp add: factory_pwc_def Let_def)
next
  assume "asarray ts (rdtype_of dt) = Inr tsa \<and> check_time_array tsa = Inr () \<and>
     asarray values dt = Inr va \<and> shape va = d # s \<and> int d = int (hd (shape tsa)) - 1 \<and>
     asarray array dt = Inr aa \<and>
     (ndim aa \<noteq> 2 \<or> last (shape aa) \<noteq> last (butlast (shape aa)))"
  then show "totime cd (Tuple3 ts values array) (Some dt) =
         Inl (TypeError (PWC_array_not_square (shape aa)))"
    by (auto simp: factory_pwc_def Let_def)
next
  assume "g 0 = Inr (JaxArray fd f0) \<and> (fd = dt \<or> fd = rdtype_of dt) \<and> asarray array dt = Inr aa \<and>
     (ndim aa \<noteq> 2 \<or> last (shape aa) \<noteq> last (butlast (shape aa)))"
  then show "totime cd (Tuple2 (Function g) array) (Some dt) =
         Inl (TypeError (Modulated_array_not_square (shape aa)))"
    by (auto simp: Let_def)
next
  assume "g 0 = Inr v \<and> (\<forall>fd f0. v \<noteq> JaxArray fd f0)"
  then show "totime cd (Tuple2 (Function g) array) (Some dt) =
         Inl (TypeError (Modulated_f_not_an_array (obj_type_str v)))"
    by (cases v) (auto simp: Let_def)
qed

theorem construction_errors_witness:
  "totime complex64 (Tuple3 (ArrayLike ''list'' (NDArray [3] [0, 1, 2]))
       (ArrayLike ''list'' (NDArray [3] [1, 2, 3])) (ArrayLike ''list'' (NDArray [1, 1] [1])))
     (Some complex64) = Inl (TypeError (PWC_values_shape [3])) \<and>
   totime complex64 (Tuple3 (ArrayLike ''list'' (NDArray [3] [0, 1, 2]))
       (ArrayLike ''list'' (NDArray [2] [3, 5])) (ArrayLike ''list'' (NDArray [1, 2] [1, 2])))
     (Some complex64) = Inl (TypeError (PWC_array_not_square [1, 2])) \<and>
   totime complex64 (Tuple2 (Function (\<lambda>t. Inr (JaxArray complex64 (NDArray [] [1]))))
       (ArrayLike ''list'' (NDArray [1, 2] [1, 2])))
     (Some complex64) = Inl (TypeError (Modulated_array_not_square [1, 2])) \<and>
   totime complex64 (Tuple2 (Function (\<lambda>t. Inr (ArrayLike ''list'' (NDArray [2] [1, 2]))))
       (ArrayLike ''list'' (NDArray [1, 1] [1])))
     (Some complex64) = Inl (TypeError (Modulated_f_not_an_array ''list''))"
proof -
  let ?ts = "ArrayLike ''list'' (NDArray [3] [0, 1, 2])"
  have a1: "asarray ?ts (rdtype_of complex64) = Inr (NDArray [3] [0, 1, 2]) \<and>
        check_time_array (NDArray [3] [0, 1, 2]) = Inr () \<and>
        asarray (ArrayLike ''list'' (NDArray [3] [1, 2, 3])) complex64 = Inr (NDArray [3] [1, 2, 3]) \<and>
        shape (NDArray [3] [1, 2, 3 :: complex]) = 3 # [] \<and>
        int 3 \<noteq> int (hd (shape (NDArray [3] [0, 1, 2 :: complex]))) - 1"
    by code_simp
  have a2: "asarray ?ts (rdtype_of complex64) = Inr (NDArray [3] [0, 1, 2]) \<and>
        check_time_array (NDArray [3] [0, 1, 2]) = Inr () \<and>
        asarray (ArrayLike ''list'' (NDArray [2] [3, 5])) complex64 = Inr (NDArray [2] [3, 5]) \<and>
        shape (NDArray [2] [3, 5 :: complex]) = 2 # [] \<and>
        int 2 = int (hd (shape (NDArray [3] [0, 1, 2 :: complex]))) - 1 \<and>
        asarray (ArrayLike ''list'' (NDArray [1, 2] [1, 2])) complex64 = Inr (NDArray [1, 2] [1, 2]) \<and>
        (ndim (NDArray [1, 2] [1, 2 :: complex]) \<noteq> 2 \<or>
         last (shape (NDArray [1, 2] [1, 2 :: complex])) \<noteq>
         last (butlast (shape (NDArray [1, 2] [1, 2 :: complex]))))"
    by code_simp
  have m: "asarray (ArrayLike ''list'' (NDArray [1, 2] [1, 2])) complex64 = Inr (NDArray [1, 2] [1, 2])"
    by code_simp
  have a3: "(\<lambda>t::real. Inr (JaxArray complex64 (NDArray [] [1])) :: error + pyobj) 0 =
          Inr (JaxArray complex64 (NDArray [] [1])) \<and>
        (complex64 = complex64 \<or> complex64 = rdtype_of complex64) \<and>
        asarray (ArrayLike ''list'' (NDArray [1, 2] [1, 2])) complex64 = Inr (NDArray [1, 2] [1, 2]) \<and>
        (ndim (NDArray [1, 2] [1, 2 :: complex]) \<noteq> 2 \<or>
         last (shape (NDArray [1, 2] [1, 2 :: complex])) \<noteq>
         last (butlast (shape (NDArray [1, 2] [1, 2 :: complex]))))"
    using m by (simp del: asarray.simps)
  have a4: "(\<lambda>t::real. Inr (ArrayLike ''list'' (NDArray [2] [1, 2])) :: error + pyobj) 0 =
          Inr (ArrayLike ''list'' (NDArray [2] [1, 2])) \<and>
        (\<forall>fd f0. ArrayLike ''list'' (NDArray [2] [1, 2]) \<noteq> JaxArray fd f0)"
    by simp
  note c1 = construction_errors[THEN conjunct1, rule_format, OF a1]
  note c2 = construction_errors[THEN conjunct2, THEN conjunct1, rule_format, OF a2]
  note c3 = construction_errors[THEN conjunct2, THEN conjunct2, THEN conjunct1, rule_format, OF a3]
  note c4 = construction_errors[THEN conjunct2, THEN conjunct2, THEN conjunct2, rule_format, OF a4]
  show ?thesis
    using c1[of complex64 "ArrayLike ''list'' (NDArray [1, 1] [1])"] c2[of complex64]
      c3[of complex64] c4[of complex64 "ArrayLike ''list'' (NDArray [1, 1] [1])" complex64]
    by simp
qed

section \<open>Subtraction after a reshape of a callable time array\<close>

text \<open>Claim C8 says that \<open>(A - B).call(t)\<close> equals \<open>A.call(t) - B.call(t)\<close> for every time
  array \<open>A\<close>.  \<open>CallableTimeArray.__add__\<close> adds the operand to the value \<open>f(t)\<close> in the shape
  the function returns, and to \<open>f0\<close> in the reshaped shape.  For the function that returns
  the array \<open>[1, 2]\<close> of shape \<open>(2, 1, 1, 1)\<close>, reshaped to \<open>(1, 2, 1, 1)\<close>, and the array
  \<open>y = [[1, 2], [3, 4]]\<close> of shape \<open>(2, 2, 1, 1)\<close>, the call of \<open>A - y\<close> returns
  \<open>[[0, -1], [-1, -2]]\<close>, and \<open>A.call(t) - y\<close> is \<open>[[0, 0], [-2, -2]]\<close>.\<close>

theorem reshaped_callable_sub_diverges:
  "seq (totime complex64
          (Single (Function (\<lambda>t. Inr (JaxArray complex64 (NDArray [2, 1, 1, 1] [1, 2])))))
          None) (\<lambda>A0.
   seq (TimeArray_reshape A0 [1, 2, 1, 1]) (\<lambda>A.
   seq (TimeArray_sub A (Array (NDArray [2, 2, 1, 1] [1, 2, 3, 4]))) (\<lambda>C.
   operand_call C 0))) = Inr (NDArray [2, 2, 1, 1] [0, - 1, - 1, - 2]) \<and>
   seq (totime complex64
          (Single (Function (\<lambda>t. Inr (JaxArray complex64 (NDArray [2, 1, 1, 1] [1, 2])))))
          None) (\<lambda>A0.
   seq (TimeArray_reshape A0 [1, 2, 1, 1]) (\<lambda>A.
   seq (TimeArray_call A 0) (\<lambda>a.
   sub_nd a (NDArray [2, 2, 1, 1] [1, 2, 3, 4])))) = Inr (NDArray [2, 2, 1, 1] [0, 0, - 2, - 2])"
  by code_simp

section \<open>Conversion of a list of numbers\<close>

text \<open>What \<open>to_tensor\<close> returns on each kind of input.\<close>

lemma to_tensor_other_inputs:
  "to_tensor from_qutip PyNone = Inr empty_tensor"
  "to_tensor from_qutip (PyList []) = Inr empty_tensor"
  "to_tensor from_qutip (PyList (x # xs)) = seq (to_tensor_each from_qutip (x # xs)) torch_stack"
  "to_tensor_each from_qutip ys = mapM (to_tensor from_qutip) ys"
  "to_tensor from_qutip (Qobj q) = from_qutip q"
  "to_tensor from_qutip (NumpyArray a) = Inr a"
  "to_tensor from_qutip (TorchTensor a) = Inr a"
  "to_tensor from_qutip (PyFloat z) = Inl (TypeError (To_tensor_unsupported ''float''))"
  "to_tensor from_qutip (PyObject name) = Inl (TypeError (To_tensor_unsupported name))"
  by (simp_all, induction ys) simp_all

text \<open>Claim C10 says that \<open>to_tensor\<close> returns the converted tensor for a Python list, and
  the docstring lists the Python list among the supported inputs.  Every list takes the
  branch that converts its elements one by one, and a number is not a supported input:
  the nested list \<open>[[0.0, 1.0], [1.0, 0.0]]\<close> raises the \<open>TypeError\<close> that names
  \<open>float\<close>.\<close>

theorem to_tensor_list_of_numbers_raises:
  "to_tensor from_qutip (PyList [PyList [PyFloat 0, PyFloat 1], PyList [PyFloat 1, PyFloat 0]]) =
     Inl (TypeError (To_tensor_unsupported ''float''))"
  by simp

section \<open>The Lindbladian without jump operators\<close>

lemma valid_matrix_split:
  assumes "valid (b @ [n, m]) idx"
  obtains j r c where "idx = j @ [r, c]" "valid b j" "r < n" "c < m"
proof -
  have sp: "valid b (take (length b) idx)" "valid [n, m] (drop (length b) idx)"
    using valid_split[OF assms] by simp_all
  from sp(2) obtain r c where rc: "drop (length b) idx = [r, c]" "r < n" "c < m"
    by (auto simp: valid_def list_all2_Cons2)
  have "idx = take (length b) idx @ [r, c]" using rc(1) by (metis append_take_drop_id)
  with sp(1) rc show ?thesis using that by blast
qed

lemma valid_matrixI:
  "valid b j \<Longrightarrow> r < n \<Longrightarrow> c < m \<Longrightarrow> valid (b @ [n, m]) (j @ [r, c])"
  using valid_length[of b j] by (subst valid_append) simp_all

lemma tabulate_cong_matrix:
  assumes "\<And>j r c. valid b j \<Longrightarrow> r < n \<Longrightarrow> c < m \<Longrightarrow> g (j @ [r, c]) = h (j @ [r, c])"
  shows "tabulate (b @ [n, m]) g = tabulate (b @ [n, m]) h"
proof (rule tabulate_cong)
  fix idx assume "valid (b @ [n, m]) idx"
  then obtain j r c where "idx = j @ [r, c]" "valid b j" "r < n" "c < m"
    by (rule valid_matrix_split)
  then show "g idx = h idx" using assms by simp
qed

lemma indices_empty: "0 \<in> set s \<Longrightarrow> indices s = []"
proof -
  assume "0 \<in> set s"
  then have "prod_list s = 0" by (simp add: prod_list_zero_iff)
  then have "length (indices s) = 0" by (simp add: length_indices)
  then show ?thesis by simp
qed

lemma elem_zeros [simp]: "valid s idx \<Longrightarrow> elem (zeros s) idx = 0"
  by (simp add: zeros_tabulate)

lemma shape_zeros [simp]: "shape (zeros s) = s"
  by (simp add: zeros_def)

lemma scale_zeros [simp]: "scale z (zeros s) = zeros s"
  by (simp add: scale_def map_nd_def zeros_def)

lemma broadcast_shapes_matrix:
  "broadcast_shapes (b @ [n, m]) [n, m] = Some (b @ [n, m])"
  by (rule broadcast_shapes_prefix) simp_all

lemma sub_nd_zeros_matrix:
  fixes a :: "complex ndarray"
  assumes "shape a = b @ [n, m]" "wf_nd a"
  shows "sub_nd a (zeros [n, m]) = Inr a"
proof -
  have "tabulate (b @ [n, m])
          (\<lambda>idx. elem a (bidx (b @ [n, m]) idx) - elem (zeros [n, m]) (bidx [n, m] idx)) =
        tabulate (b @ [n, m]) (elem a)"
  proof (rule tabulate_cong)
    fix idx assume v: "valid (b @ [n, m]) idx"
    have "valid [n, m] (bidx [n, m] idx)"
      by (rule bidx_valid_right[OF broadcast_shapes_matrix v])
    then show "elem a (bidx (b @ [n, m]) idx) - elem (zeros [n, m]) (bidx [n, m] idx) = elem a idx"
      using v by (simp add: bidx_valid)
  qed
  then show ?thesis
    using assms tabulate_elem[OF assms(2)] by (simp add: broadcast_op_def broadcast_shapes_matrix)
qed

lemma bsr_absorb: "bsr a b = Some s \<Longrightarrow> bsr s b = Some s"
proof (induction a b arbitrary: s rule: bsr.induct)
  case (1 ys)
  have "bsr ys ys = Some ys" by (induction ys) simp_all
  with 1 show ?case by simp
next
  case (2 v va) then show ?case by simp
next
  case (3 x xs y ys)
  from "3.prems" obtain d s' where d: "broadcast_dim x y = Some d" "bsr xs ys = Some s'" "s = d # s'"
    by (auto split: option.splits)
  have "broadcast_dim d y = Some d" using d(1) by (auto simp: broadcast_dim_def split: if_splits)
  then show ?case using "3.IH"[OF d(1,2)] d(3) by simp
qed

lemma bsr_common_prefix:
  "bsr (t @ a) (t @ b) = map_option ((@) t) (bsr a b)"
  by (induction t) (simp_all add: option.map_comp comp_def option.map_ident)

lemma broadcast_shapes_common_suffix:
  "broadcast_shapes (s1 @ t) (s2 @ t) = map_option (\<lambda>s. s @ t) (broadcast_shapes s1 s2)"
  by (simp add: broadcast_shapes_bsr bsr_common_prefix option.map_comp comp_def)

lemma broadcast_shapes_absorb:
  "broadcast_shapes s1 s2 = Some s \<Longrightarrow> broadcast_shapes s s2 = Some s"
  using bsr_absorb[of "rev s1" "rev s2" "rev s"] by (auto simp: broadcast_shapes_bsr)

lemma add_nd_zeros_absorbed:
  fixes a :: "complex ndarray"
  assumes "broadcast_shapes (shape a) s2 = Some (shape a)" "wf_nd a"
  shows "add_nd a (zeros s2) = Inr a"
proof -
  have "tabulate (shape a)
          (\<lambda>idx. elem a (bidx (shape a) idx) + elem (zeros s2) (bidx s2 idx)) =
        tabulate (shape a) (elem a)"
  proof (rule tabulate_cong)
    fix idx assume v: "valid (shape a) idx"
    have "valid s2 (bidx s2 idx)" by (rule bidx_valid_right[OF assms(1) v])
    then show "elem a (bidx (shape a) idx) + elem (zeros s2) (bidx s2 idx) = elem a idx"
      using v by (simp add: bidx_valid)
  qed
  then show ?thesis
    using assms(1) tabulate_elem[OF assms(2)] by (simp add: broadcast_op_def)
qed

lemma matmul_batched:
  assumes "shape a = ba @ [n, k]" "shape b = bb @ [k, m]" "broadcast_shapes ba bb = Some bs"
  shows "matmul a b =
    Inr (tabulate (bs @ [n, m])
      (\<lambda>idx. \<Sum>l<k. elem a (bidx ba (take (length bs) idx) @ [idx ! length bs, l]) *
                     elem b (bidx bb (take (length bs) idx) @ [l, idx ! (length bs + 1)])))"
  using assms
  by (simp add: matmul_def Let_def nth_append interv_sum_list_conv_sum_set_nat atLeast0LessThan)

lemma conj_nd_tabulate: "conj_nd (tabulate s g) = tabulate s (\<lambda>idx. cnj (g idx))"
  by (simp add: conj_nd_def map_nd_def tabulate_def)

lemma adjoint_nd_matrix:
  assumes "shape a = b @ [n, m]"
  shows "adjoint_nd a =
    Inr (tabulate (b @ [m, n])
      (\<lambda>idx. cnj (elem a (take (length b) idx @ [idx ! (length b + 1), idx ! length b]))))"
  using assms by (simp add: adjoint_nd_def mT_nd_def Let_def nth_append conj_nd_tabulate)

lemma hermitian_elem:
  assumes "shape rho = br @ [n, n]" "adjoint_nd rho = Inr rho" "valid br j" "r < n" "c < n"
  shows "elem rho (j @ [r, c]) = cnj (elem rho (j @ [c, r]))"
proof -
  have eq: "rho = tabulate (br @ [n, n])
      (\<lambda>idx. cnj (elem rho (take (length br) idx @ [idx ! (length br + 1), idx ! length br])))"
    using adjoint_nd_matrix[OF assms(1)] assms(2) by simp
  have v: "valid (br @ [n, n]) (j @ [r, c])" using assms(3-5) by (rule valid_matrixI)
  have "elem rho (j @ [r, c]) = elem (tabulate (br @ [n, n])
      (\<lambda>idx. cnj (elem rho (take (length br) idx @ [idx ! (length br + 1), idx ! length br]))))
      (j @ [r, c])"
    using eq by simp
  also have "\<dots> = cnj (elem rho (j @ [c, r]))"
    using v valid_length[OF assms(3)] by (simp add: nth_append)
  finally show ?thesis .
qed

lemma adjoint_matmul_hermitian:
  assumes a: "shape a = ba @ [n, n]" and rho: "shape rho = br @ [n, n]"
    and bs: "broadcast_shapes ba br = Some bs" and h: "adjoint_nd rho = Inr rho"
  shows "seq (matmul a rho) adjoint_nd = seq (adjoint_nd a) (\<lambda>ad. matmul rho ad)"
proof -
  let ?G = "\<lambda>idx. \<Sum>l<n. elem a (bidx ba (take (length bs) idx) @ [idx ! length bs, l]) *
                     elem rho (bidx br (take (length bs) idx) @ [l, idx ! (length bs + 1)])"
  let ?ad = "tabulate (ba @ [n, n])
      (\<lambda>idx. cnj (elem a (take (length ba) idx @ [idx ! (length ba + 1), idx ! length ba])))"
  have bs': "broadcast_shapes br ba = Some bs" using bs by (simp add: broadcast_shapes_commute)
  have m1: "matmul a rho = Inr (tabulate (bs @ [n, n]) ?G)"
    by (rule matmul_batched[OF a rho bs])
  have ad: "adjoint_nd a = Inr ?ad" by (rule adjoint_nd_matrix[OF a])
  have m2: "matmul rho ?ad = Inr (tabulate (bs @ [n, n])
      (\<lambda>idx. \<Sum>l<n. elem rho (bidx br (take (length bs) idx) @ [idx ! length bs, l]) *
                     elem ?ad (bidx ba (take (length bs) idx) @ [l, idx ! (length bs + 1)])))"
    by (rule matmul_batched[OF rho _ bs']) simp
  have lhs: "adjoint_nd (tabulate (bs @ [n, n]) ?G) = Inr (tabulate (bs @ [n, n])
      (\<lambda>idx. cnj (elem (tabulate (bs @ [n, n]) ?G)
          (take (length bs) idx @ [idx ! (length bs + 1), idx ! length bs]))))"
    by (rule adjoint_nd_matrix) simp
  have "tabulate (bs @ [n, n])
      (\<lambda>idx. cnj (elem (tabulate (bs @ [n, n]) ?G)
          (take (length bs) idx @ [idx ! (length bs + 1), idx ! length bs]))) =
     tabulate (bs @ [n, n])
      (\<lambda>idx. \<Sum>l<n. elem rho (bidx br (take (length bs) idx) @ [idx ! length bs, l]) *
                     elem ?ad (bidx ba (take (length bs) idx) @ [l, idx ! (length bs + 1)]))"
  proof (rule tabulate_cong_matrix)
    fix j r c assume j: "valid bs j" and r: "r < n" and c: "c < n"
    have lj: "length j = length bs" using valid_length[OF j] .
    have vcr: "valid (bs @ [n, n]) (j @ [c, r])" using j c r by (rule valid_matrixI)
    have va: "valid ba (bidx ba j)" by (rule bidx_valid_left[OF bs j])
    have vr: "valid br (bidx br j)" by (rule bidx_valid_right[OF bs j])
    have la: "length (bidx ba j) = length ba" using valid_length[OF va] .
    have "cnj (elem (tabulate (bs @ [n, n]) ?G) (j @ [c, r])) = cnj (?G (j @ [c, r]))"
      using vcr by simp
    also have "\<dots> = (\<Sum>l<n. cnj (elem a (bidx ba j @ [c, l])) * cnj (elem rho (bidx br j @ [l, r])))"
      using lj by (simp add: nth_append)
    also have "\<dots> = (\<Sum>l<n. elem rho (bidx br j @ [r, l]) * cnj (elem a (bidx ba j @ [c, l])))"
    proof (rule sum.cong, rule refl)
      fix l assume "l \<in> {..<n}"
      then have l: "l < n" by simp
      have "elem rho (bidx br j @ [r, l]) = cnj (elem rho (bidx br j @ [l, r]))"
        by (rule hermitian_elem[OF rho h vr r l])
      then show "cnj (elem a (bidx ba j @ [c, l])) * cnj (elem rho (bidx br j @ [l, r])) =
                 elem rho (bidx br j @ [r, l]) * cnj (elem a (bidx ba j @ [c, l]))"
        by simp
    qed
    also have "\<dots> = (\<Sum>l<n. elem rho (bidx br j @ [r, l]) * elem ?ad (bidx ba j @ [l, c]))"
    proof (rule sum.cong, rule refl)
      fix l assume "l \<in> {..<n}"
      then have l: "l < n" by simp
      have "valid (ba @ [n, n]) (bidx ba j @ [l, c])" using va l c by (rule valid_matrixI)
      then have "elem ?ad (bidx ba j @ [l, c]) = cnj (elem a (bidx ba j @ [c, l]))"
        using la by (simp add: nth_append)
      then show "elem rho (bidx br j @ [r, l]) * cnj (elem a (bidx ba j @ [c, l])) =
                 elem rho (bidx br j @ [r, l]) * elem ?ad (bidx ba j @ [l, c])"
        by simp
    qed
    finally show "cnj (elem (tabulate (bs @ [n, n]) ?G)
          (take (length bs) (j @ [r, c]) @ [(j @ [r, c]) ! (length bs + 1), (j @ [r, c]) ! length bs])) =
      (\<Sum>l<n. elem rho (bidx br (take (length bs) (j @ [r, c])) @ [(j @ [r, c]) ! length bs, l]) *
                     elem ?ad (bidx ba (take (length bs) (j @ [r, c])) @ [l, (j @ [r, c]) ! (length bs + 1)]))"
      using lj by (simp add: nth_append)
  qed
  then show ?thesis by (simp only: m1 ad m2 lhs seq_Inr)
qed

lemma sub_nd_same_shape:
  fixes x y :: "complex ndarray"
  assumes "shape x = s" "shape y = s"
  shows "sub_nd x y = Inr (tabulate s (\<lambda>j. elem x j - elem y j))"
proof -
  have "map2 broadcast_dim s s = map Some s" by (induction s) simp_all
  then have bs: "broadcast_shapes s s = Some s"
    by (simp add: broadcast_shapes_def pad_shape_def)
  have "tabulate s (\<lambda>idx. elem x (bidx s idx) - elem y (bidx s idx)) =
        tabulate s (\<lambda>j. elem x j - elem y j)"
    by (rule tabulate_cong) (simp add: bidx_valid)
  then show ?thesis using bs assms by (simp add: broadcast_op_def)
qed

lemma scale_tabulate: "scale z (tabulate s g) = tabulate s (\<lambda>idx. z * g idx)"
  by (simp add: scale_def map_nd_def tabulate_def)

lemma sum_no_jump_empty:
  assumes "shape ops = [0, n, n]"
  shows "sum_no_jump (MESolver_init h ops) = Inr (zeros [n, n])"
proof -
  let ?J = "expand_first ops"
  have sh: "shape ?J = [1, 0] @ [n, n]" using assms by (simp add: expand_first_def)
  have e: "\<And>g. tabulate ([1, 0] @ [n, n]) g = NDArray [1, 0, n, n] ([]::complex list)"
    by (simp add: tabulate_def indices_empty del: indices.simps)
  have ad: "adjoint_nd ?J = Inr (NDArray [1, 0, n, n] [])"
    unfolding adjoint_nd_matrix[OF sh] e ..
  have bs: "broadcast_shapes [1, 0] [1, 0] = Some [1, 0]"
    by (simp add: broadcast_shapes_def pad_shape_def)
  have mm: "matmul (NDArray [1, 0, n, n] []) ?J = Inr (NDArray [1, 0, n, n] [])"
    using matmul_batched[of "NDArray [1, 0, n, n] []" "[1, 0]" n n ?J "[1, 0]" n "[1, 0]"] sh bs e
    by simp
  have z: "sum_dim0 (squeeze0 (NDArray [1, 0, n, n] ([]::complex list))) = zeros [n, n]"
    by (simp add: squeeze0_def sum_dim0_def zeros_tabulate)
  have j: "jump_ops (MESolver_init h ops) = ?J" by (simp add: MESolver_init_def)
  show ?thesis
    by (simp only: sum_no_jump_def j ad seq_Inr mm z)
qed

lemma kraus_map_empty:
  assumes "shape ops = [0, n, n]"
  shows "kraus_map rho (jump_ops (MESolver_init h ops)) = Inr (zeros (shape rho))"
  using assms
  by (simp add: kraus_map_def operator_list_def MESolver_init_def expand_first_def zeros_like_def)

lemma torch_broadcast_op_Inr:
  "broadcast_op g a b = Inr r \<Longrightarrow> torch_broadcast_op g a b = Inr r"
  by (simp add: torch_broadcast_op_def)

text \<open>Claim C7.  For a solver made with an empty set of \<open>n \<times> n\<close> jump operators, a
  Hamiltonian \<open>H(t)\<close> of shape \<open>(..., n, n)\<close> and a Hermitian \<open>\<rho>\<close> of shape \<open>(..., n, n)\<close>, as
  a density matrix is, with batch shapes that broadcast: \<open>sum_no_jump\<close> is the zero matrix,
  \<open>H_nh(t)\<close> is \<open>H(t)\<close>, the Kraus map of \<open>\<rho>\<close> is zero, and \<open>lindbladian(t, \<rho>)\<close> returns
  \<open>-i (H(t) \<rho> - \<rho> H(t)\<^sup>\<dagger>)\<close>.\<close>

theorem lindbladian_no_jump_ops:
  assumes "shape ops = [0, n, n]"
    and "h t = Inr Ht" and "shape Ht = bh @ [n, n]" and "wf_nd Ht"
    and "shape rho = br @ [n, n]" and "adjoint_nd rho = Inr rho"
    and "broadcast_shapes bh br = Some bs"
  shows "sum_no_jump (MESolver_init h ops) = Inr (zeros [n, n]) \<and>
         H_nh (MESolver_init h ops) t = Inr Ht \<and>
         kraus_map rho (jump_ops (MESolver_init h ops)) = Inr (zeros (br @ [n, n])) \<and>
         (\<exists>r. lindbladian (MESolver_init h ops) t rho = Inr r \<and>
              seq (matmul Ht rho) (\<lambda>Hrho.
              seq (adjoint_nd Ht) (\<lambda>Hd.
              seq (matmul rho Hd) (\<lambda>rhoHd.
              seq (torch_sub Hrho rhoHd) (\<lambda>commutator.
              Inr (scale (Complex 0 (- 1)) commutator))))) = Inr r)"
proof -
  let ?S = "MESolver_init h ops"
  have snj: "sum_no_jump ?S = Inr (zeros [n, n])" by (rule sum_no_jump_empty[OF assms(1)])
  have "torch_sub Ht (zeros [n, n]) = Inr Ht"
    by (rule torch_broadcast_op_Inr[OF sub_nd_zeros_matrix[OF assms(3,4)]])
  then have hnh: "H_nh ?S t = Inr Ht"
    using assms(2) snj by (simp add: H_nh_def MESolver_init_def)
  have km: "kraus_map rho (jump_ops ?S) = Inr (zeros (br @ [n, n]))"
    using kraus_map_empty[OF assms(1), of rho h] assms(5) by simp
  obtain X where X: "matmul Ht rho = Inr X" "shape X = bs @ [n, n]"
    using matmul_batched[OF assms(3,5,7)] by simp
  obtain Hd where Hd: "adjoint_nd Ht = Inr Hd"
    using adjoint_nd_matrix[OF assms(3)] by simp
  obtain Xa where Xa: "adjoint_nd X = Inr Xa" "shape Xa = bs @ [n, n]"
    using adjoint_nd_matrix[OF X(2)] by simp
  have "seq (matmul Ht rho) adjoint_nd = seq (adjoint_nd Ht) (\<lambda>ad. matmul rho ad)"
    by (rule adjoint_matmul_hermitian[OF assms(3,5,7,6)])
  then have rhoHd: "matmul rho Hd = Inr Xa" using X(1) Xa(1) Hd by simp
  define d where "d = tabulate (bs @ [n, n]) (\<lambda>j. elem X j - elem Xa j)"
  have sub: "torch_sub X Xa = Inr d"
    unfolding d_def by (rule torch_broadcast_op_Inr[OF sub_nd_same_shape[OF X(2) Xa(2)]])
  define r where "r = scale (Complex 0 (- 1)) d"
  have r_tab: "r = tabulate (bs @ [n, n]) (\<lambda>j. Complex 0 (- 1) * (elem X j - elem Xa j))"
    by (simp add: r_def d_def scale_tabulate)
  have shr: "shape r = bs @ [n, n]" and wfr: "wf_nd r" by (simp_all add: r_tab)
  have "broadcast_shapes (bs @ [n, n]) (br @ [n, n]) = Some (bs @ [n, n])"
    using broadcast_shapes_absorb[OF assms(7)] by (simp add: broadcast_shapes_common_suffix)
  then have "add_nd r (zeros (br @ [n, n])) = Inr r"
    using shr wfr by (intro add_nd_zeros_absorbed) simp_all
  then have "torch_add r (zeros (br @ [n, n])) = Inr r"
    by (rule torch_broadcast_op_Inr)
  then have lin: "lindbladian ?S t rho = Inr r"
    by (simp add: lindbladian_def hnh X(1) km Xa(1) sub r_def)
  have rhs: "seq (matmul Ht rho) (\<lambda>Hrho.
              seq (adjoint_nd Ht) (\<lambda>Hd.
              seq (matmul rho Hd) (\<lambda>rhoHd.
              seq (torch_sub Hrho rhoHd) (\<lambda>commutator.
              Inr (scale (Complex 0 (- 1)) commutator))))) = Inr r"
    by (simp add: X(1) Hd rhoHd sub r_def)
  show ?thesis using snj hnh km lin rhs by blast
qed

theorem lindbladian_no_jump_ops_witness:
  "lindbladian (MESolver_init (\<lambda>t. Inr (NDArray [2, 2] [0, 1, 1, 0])) (NDArray [0, 2, 2] []))
     0 (NDArray [2, 2] [1, 0, 0, 0]) =
   Inr (NDArray [2, 2] [0, Complex 0 1, Complex 0 (- 1), 0])"
proof -
  let ?h = "\<lambda>t::real. Inr (NDArray [2, 2] [0, 1, 1, 0]) :: error + complex ndarray"
  let ?Ht = "NDArray [2, 2] [0, 1, 1, 0 :: complex]"
  let ?rho = "NDArray [2, 2] [1, 0, 0, 0 :: complex]"
  have h1: "shape (NDArray [0, 2, 2] ([] :: complex list)) = [0, 2, 2]" by simp
  have h2: "?h 0 = Inr ?Ht" by simp
  have h3: "shape ?Ht = [] @ [2, 2]" by simp
  have h4: "wf_nd ?Ht" by (simp add: wf_nd_def)
  have h5: "shape ?rho = [] @ [2, 2]" by simp
  have h6: "adjoint_nd ?rho = Inr ?rho" by code_simp
  have h7: "broadcast_shapes [] [] = Some []" by (simp add: broadcast_shapes_def pad_shape_def)
  have e: "seq (matmul ?Ht ?rho) (\<lambda>Hrho.
              seq (adjoint_nd ?Ht) (\<lambda>Hd.
              seq (matmul ?rho Hd) (\<lambda>rhoHd.
              seq (torch_sub Hrho rhoHd) (\<lambda>commutator.
              Inr (scale (Complex 0 (- 1)) commutator))))) =
           Inr (NDArray [2, 2] [0, Complex 0 1, Complex 0 (- 1), 0])"
    by code_simp
  show ?thesis
    using lindbladian_no_jump_ops[OF h1 h2 h3 h4 h5 h6 h7] unfolding e by auto
qed

end
